theory Spec2Isabelle
  imports Main "HOL-Library.Sublist" "HOL-Library.List_Lexorder"
begin

section \<open>Text and bytes\<close>

text \<open>
  Python \<^verbatim>\<open>bytes\<close> are lists of 8-bit characters; a Python \<^verbatim>\<open>str\<close> is a list of
  Unicode code points, each a natural number.  A string literal of the source is written
  \<open>str ''...''\<close>; a bytes literal is the character list itself.
\<close>

type_synonym bytes = "char list"
type_synonym ustr = "nat list"

definition str :: "string \<Rightarrow> ustr" where
  "str s = map of_char s"

definition CR :: nat where "CR = 13"
definition LF :: nat where "LF = 10"

definition CRLF :: string where
  "CRLF = [CHR 0x0D, CHR 0x0A]"

definition CRLFCRLF :: string where
  "CRLFCRLF = CRLF @ CRLF"

text \<open>\<^verbatim>\<open>bytes.decode('latin-1')\<close>: every byte becomes the code point of the same value.\<close>

definition latin1_decode :: "bytes \<Rightarrow> ustr" where
  "latin1_decode bs = map of_char bs"

text \<open>\<^verbatim>\<open>str.encode('latin-1')\<close> on code points below 256.\<close>

definition latin1_encode :: "ustr \<Rightarrow> bytes" where
  "latin1_encode s = map char_of s"

subsection \<open>UTF-8\<close>

text \<open>
  \<^verbatim>\<open>bytes.decode('utf-8', errors)\<close> for the two error handlers the programs use:
  \<^verbatim>\<open>'ignore'\<close> drops an ill-formed sequence, \<^verbatim>\<open>'replace'\<close> puts U+FFFD in its place.
  An ill-formed sequence is one byte for a byte that cannot start a sequence, the bytes
  read so far when the next byte does not continue the sequence, and all that is left when
  the input ends inside a sequence.
\<close>

datatype errors = Ignore | Replace

definition on_error :: "errors \<Rightarrow> ustr" where
  "on_error h = (case h of Ignore \<Rightarrow> [] | Replace \<Rightarrow> [0xFFFD])"

definition is_cont :: "nat \<Rightarrow> bool" where
  "is_cont c \<longleftrightarrow> 0x80 \<le> c \<and> c < 0xC0"

fun utf8_decode :: "errors \<Rightarrow> bytes \<Rightarrow> ustr" where
  "utf8_decode h [] = []"
| "utf8_decode h (b # bs) =
     (let ch = (of_char b :: nat) in
      if ch < 0x80 then ch # utf8_decode h bs
      else if ch < 0xC2 then on_error h @ utf8_decode h bs
      else if ch < 0xE0 then
        (case bs of
           [] \<Rightarrow> on_error h
         | b2 # r2 \<Rightarrow>
             (let ch2 = (of_char b2 :: nat) in
              if \<not> is_cont ch2 then on_error h @ utf8_decode h bs
              else ((ch - 0xC0) * 64 + (ch2 - 0x80)) # utf8_decode h r2))
      else if ch < 0xF0 then
        (case bs of
           [] \<Rightarrow> on_error h
         | b2 # r2 \<Rightarrow>
             (let ch2 = (of_char b2 :: nat) in
              if \<not> is_cont ch2 \<or> (if ch2 < 0xA0 then ch = 0xE0 else ch = 0xED)
              then on_error h @ utf8_decode h bs
              else (case r2 of
                      [] \<Rightarrow> on_error h
                    | b3 # r3 \<Rightarrow>
                        (let ch3 = (of_char b3 :: nat) in
                         if \<not> is_cont ch3 then on_error h @ utf8_decode h r2
                         else ((ch - 0xE0) * 4096 + (ch2 - 0x80) * 64 + (ch3 - 0x80))
                                # utf8_decode h r3))))
      else if ch < 0xF5 then
        (case bs of
           [] \<Rightarrow> on_error h
         | b2 # r2 \<Rightarrow>
             (let ch2 = (of_char b2 :: nat) in
              if \<not> is_cont ch2 \<or> (if ch2 < 0x90 then ch = 0xF0 else ch = 0xF4)
              then on_error h @ utf8_decode h bs
              else (case r2 of
                      [] \<Rightarrow> on_error h
                    | b3 # r3 \<Rightarrow>
                        (let ch3 = (of_char b3 :: nat) in
                         if \<not> is_cont ch3 then on_error h @ utf8_decode h r2
                         else (case r3 of
                                 [] \<Rightarrow> on_error h
                               | b4 # r4 \<Rightarrow>
                                   (let ch4 = (of_char b4 :: nat) in
                                    if \<not> is_cont ch4 then on_error h @ utf8_decode h r3
                                    else ((ch - 0xF0) * 262144 + (ch2 - 0x80) * 4096
                                            + (ch3 - 0x80) * 64 + (ch4 - 0x80))
                                           # utf8_decode h r4))))))
      else on_error h @ utf8_decode h bs)"

text \<open>
  \<^verbatim>\<open>str.encode('utf-8')\<close>.  Python raises \<^verbatim>\<open>UnicodeEncodeError\<close> on a surrogate
  (U+D800 to U+DFFF); a \<^verbatim>\<open>str\<close> holds no code point above U+10FFFF.  The failure is
  the value \<open>None\<close>.
\<close>

definition encodable :: "nat \<Rightarrow> bool" where
  "encodable c \<longleftrightarrow> c < 0xD800 \<or> (0xE000 \<le> c \<and> c < 0x110000)"

definition utf8_enc1 :: "nat \<Rightarrow> bytes" where
  "utf8_enc1 c =
     (if c < 0x80 then [char_of c]
      else if c < 0x800 then [char_of (0xC0 + c div 64), char_of (0x80 + c mod 64)]
      else if c < 0x10000 then
        [char_of (0xE0 + c div 4096), char_of (0x80 + (c div 64) mod 64),
         char_of (0x80 + c mod 64)]
      else
        [char_of (0xF0 + c div 262144), char_of (0x80 + (c div 4096) mod 64),
         char_of (0x80 + (c div 64) mod 64), char_of (0x80 + c mod 64)])"

definition utf8_encode :: "ustr \<Rightarrow> bytes option" where
  "utf8_encode s = (if list_all encodable s then Some (concat (map utf8_enc1 s)) else None)"

subsection \<open>String methods\<close>

text \<open>
  \<^verbatim>\<open>s.split(sep)\<close> for a non-empty separator: the pieces between the occurrences of
  \<open>sep\<close>, found left to right without overlap.  The result is never empty.
\<close>

fun split_go :: "'a list \<Rightarrow> 'a list \<Rightarrow> 'a list \<Rightarrow> 'a list list" where
  "split_go sep cur [] = [cur]"
| "split_go sep cur (x # xs) =
     (if sep \<noteq> [] \<and> prefix sep (x # xs)
      then cur # split_go sep [] (drop (length sep - 1) xs)
      else split_go sep (cur @ [x]) xs)"

definition split_sep :: "'a list \<Rightarrow> 'a list \<Rightarrow> 'a list list" where
  "split_sep sep s = split_go sep [] s"

text \<open>\<^verbatim>\<open>s.split(sep)[0]\<close>.\<close>

definition first_piece :: "'a list \<Rightarrow> 'a list \<Rightarrow> 'a list" where
  "first_piece sep s = (case split_sep sep s of [] \<Rightarrow> [] | p # _ \<Rightarrow> p)"

text \<open>
  \<^verbatim>\<open>str.isspace\<close> on one code point, as \<^verbatim>\<open>str.split()\<close> and \<^verbatim>\<open>str.strip()\<close> use it.
\<close>

definition isspace :: "nat \<Rightarrow> bool" where
  "isspace c \<longleftrightarrow>
     (9 \<le> c \<and> c \<le> 13) \<or> (28 \<le> c \<and> c \<le> 32) \<or> c = 0x85 \<or> c = 0xA0 \<or> c = 0x1680
     \<or> (0x2000 \<le> c \<and> c \<le> 0x200A) \<or> c = 0x2028 \<or> c = 0x2029 \<or> c = 0x202F
     \<or> c = 0x205F \<or> c = 0x3000"

definition strip :: "ustr \<Rightarrow> ustr" where
  "strip s = rev (dropWhile isspace (rev (dropWhile isspace s)))"

text \<open>\<^verbatim>\<open>s.split()\<close>: the maximal runs of non-whitespace.\<close>

fun split_ws_go :: "ustr \<Rightarrow> ustr \<Rightarrow> ustr list" where
  "split_ws_go cur [] = (if cur = [] then [] else [cur])"
| "split_ws_go cur (c # cs) =
     (if isspace c then (if cur = [] then split_ws_go [] cs else cur # split_ws_go [] cs)
      else split_ws_go (cur @ [c]) cs)"

definition split_ws :: "ustr \<Rightarrow> ustr list" where
  "split_ws s = split_ws_go [] s"

text \<open>
  \<^verbatim>\<open>str.lower\<close> on the code points below 256: the ASCII capitals and the Latin-1 capitals
  (U+00C0 to U+00DE without the multiplication sign U+00D7).  Code points from 256 on are
  left as they are; none of them lowers to a letter of the keys compared against below.
\<close>

definition lower1 :: "nat \<Rightarrow> nat" where
  "lower1 c = (if (65 \<le> c \<and> c \<le> 90) \<or> (0xC0 \<le> c \<and> c \<le> 0xDE \<and> c \<noteq> 0xD7) then c + 32 else c)"

definition lower :: "ustr \<Rightarrow> ustr" where
  "lower s = map lower1 s"

text \<open>\<^verbatim>\<open>sep.join(parts)\<close>.\<close>

fun join_with :: "'a list \<Rightarrow> 'a list list \<Rightarrow> 'a list" where
  "join_with sep [] = []"
| "join_with sep [p] = p"
| "join_with sep (p # q # ps) = p @ sep @ join_with sep (q # ps)"

text \<open>\<^verbatim>\<open>b.find(sub)\<close>: the lowest index where \<open>sub\<close> occurs, or -1.\<close>

fun find_from :: "'a list \<Rightarrow> 'a list \<Rightarrow> nat \<Rightarrow> int" where
  "find_from sub [] i = (if sub = [] then int i else - 1)"
| "find_from sub (x # xs) i = (if prefix sub (x # xs) then int i else find_from sub xs (Suc i))"

definition bytes_find :: "bytes \<Rightarrow> bytes \<Rightarrow> int" where
  "bytes_find s sub = find_from sub s 0"

text \<open>\<^verbatim>\<open>str(n)\<close> for an integer, and \<^verbatim>\<open>len\<close> printed in decimal.\<close>

fun show_nat :: "nat \<Rightarrow> ustr" where
  "show_nat n = (if n < 10 then [48 + n] else show_nat (n div 10) @ [48 + n mod 10])"

definition show_int :: "int \<Rightarrow> ustr" where
  "show_int i = (if i < 0 then 45 # show_nat (nat (- i)) else show_nat (nat i))"

section \<open>client.py\<close>

subsection \<open>http_get: splitting the received bytes\<close>

text \<open>
  Lines 34 to 44 of \<^verbatim>\<open>client.py\<close>: the buffer is cut at the first double CRLF; the part
  before it is decoded as Latin-1 and split into lines, the part after it is the body,
  left as bytes.  No operation of the block can raise.
\<close>

definition decode_response :: "bytes \<Rightarrow> ustr list \<times> bytes" where
  "decode_response response_data =
     (let header_end_index = bytes_find response_data CRLFCRLF in
      if header_end_index = - 1 then
        (split_sep (str CRLF) (first_piece (str CRLFCRLF) (latin1_decode response_data)), [])
      else
        (split_sep (str CRLF) (latin1_decode (take (nat header_end_index) response_data)),
         drop (nat (header_end_index + 4)) response_data))"

text \<open>
  \<^verbatim>\<open>http_get\<close> after the receive loop: an empty buffer is reported as
  \<^verbatim>\<open>(None, None)\<close>, anything else is decoded.
\<close>

definition http_get_received :: "bytes \<Rightarrow> (ustr list \<times> bytes) option" where
  "http_get_received response_data =
     (if response_data = [] then None else Some (decode_response response_data))"

subsection \<open>get_header_value\<close>

text \<open>
  \<^verbatim>\<open>header.split(':', 1)\<close> for a header that holds a colon: the text before the first
  colon and the text after it.
\<close>

definition split_colon :: "ustr \<Rightarrow> ustr \<times> ustr" where
  "split_colon header =
     (takeWhile (\<lambda>c. c \<noteq> 58) header, drop 1 (dropWhile (\<lambda>c. c \<noteq> 58) header))"

fun get_header_loop :: "ustr list \<Rightarrow> ustr \<Rightarrow> ustr option" where
  "get_header_loop [] key = None"
| "get_header_loop (header # headers) key =
     (if 58 \<in> set header then
        (case split_colon header of
           (h_name, h_value) \<Rightarrow>
             if lower (strip h_name) = key then Some (strip h_value)
             else get_header_loop headers key)
      else get_header_loop headers key)"

definition get_header_value :: "ustr list \<Rightarrow> ustr \<Rightarrow> ustr option" where
  "get_header_value headers key = get_header_loop headers (lower key)"

subsection \<open>main: the status code of the status line\<close>

datatype exn = IndexError | ValueError | OSError | UnicodeEncodeError

definition is_digit :: "nat \<Rightarrow> bool" where
  "is_digit c \<longleftrightarrow> 48 \<le> c \<and> c \<le> 57"

definition digits_value :: "ustr \<Rightarrow> nat" where
  "digits_value ds = foldl (\<lambda>a d. 10 * a + (d - 48)) 0 ds"

text \<open>
  \<^verbatim>\<open>int(s)\<close> in base ten: surrounding whitespace is dropped, one sign may come first, and
  single underscores may stand between digits.  Anything else is a \<^verbatim>\<open>ValueError\<close>, here
  \<open>None\<close>.  Decimal digits outside ASCII and the interpreter's optional limit on the number
  of digits are not modelled.
\<close>

definition parse_digits :: "ustr \<Rightarrow> nat option" where
  "parse_digits s =
     (let groups = split_sep [95] s in
      if list_all (\<lambda>g. g \<noteq> [] \<and> list_all is_digit g) groups
      then Some (digits_value (concat groups)) else None)"

definition int_of_str :: "ustr \<Rightarrow> int option" where
  "int_of_str s =
     (case strip s of
        [] \<Rightarrow> None
      | c # r \<Rightarrow>
          if c = 45 then map_option (\<lambda>n. - int n) (parse_digits r)
          else if c = 43 then map_option int (parse_digits r)
          else map_option int (parse_digits (c # r)))"

text \<open>
  Lines 97 to 102: \<^verbatim>\<open>int(status_line.split()[1])\<close>.  A status line with fewer than two
  words is an \<^verbatim>\<open>IndexError\<close> (caught and reported), a second word that is no number a
  \<^verbatim>\<open>ValueError\<close> (not caught).
\<close>

definition status_code_of :: "ustr list \<Rightarrow> exn + int" where
  "status_code_of headers =
     (case headers of
        [] \<Rightarrow> Inl IndexError
      | status_line # _ \<Rightarrow>
          (case split_ws status_line of
             _ # code # _ \<Rightarrow>
               (case int_of_str code of None \<Rightarrow> Inl ValueError | Some n \<Rightarrow> Inr n)
           | _ \<Rightarrow> Inl IndexError))"

section \<open>Library functions used by server.py\<close>

subsection \<open>os.path on POSIX\<close>

text \<open>\<^verbatim>\<open>os.path.join(a, b)\<close>; with three arguments it is applied twice, left to right.\<close>

definition path_join :: "ustr \<Rightarrow> ustr \<Rightarrow> ustr" where
  "path_join a b =
     (if prefix [47] b then b
      else if a = [] \<or> suffix [47] a then a @ b
      else a @ [47] @ b)"

text \<open>\<^verbatim>\<open>s.rfind(c)\<close> for one character: the highest index where it stands, or -1.\<close>

fun rfind_go :: "'a \<Rightarrow> 'a list \<Rightarrow> nat \<Rightarrow> int \<Rightarrow> int" where
  "rfind_go c [] i found = found"
| "rfind_go c (x # xs) i found = rfind_go c xs (Suc i) (if x = c then int i else found)"

definition rfind :: "'a list \<Rightarrow> 'a \<Rightarrow> int" where
  "rfind s c = rfind_go c s 0 (- 1)"

text \<open>
  \<^verbatim>\<open>os.path.splitext(p)\<close>: the extension starts at the last dot of the last path
  component, unless that component has only dots before it.
\<close>

definition splitext :: "ustr \<Rightarrow> ustr \<times> ustr" where
  "splitext p =
     (let sepIndex = rfind p 47; dotIndex = rfind p 46 in
      if dotIndex > sepIndex
         \<and> list_ex (\<lambda>c. c \<noteq> 46)
              (take (nat (dotIndex - (sepIndex + 1))) (drop (nat (sepIndex + 1)) p))
      then (take (nat dotIndex) p, drop (nat dotIndex) p)
      else (p, []))"

text \<open>\<^verbatim>\<open>os.path.normpath(path)\<close>.\<close>

fun normpath_loop :: "nat \<Rightarrow> ustr list \<Rightarrow> ustr list \<Rightarrow> ustr list" where
  "normpath_loop initial_slashes [] new_comps = new_comps"
| "normpath_loop initial_slashes (cp # comps) new_comps =
     (if cp = [] \<or> cp = str ''.'' then normpath_loop initial_slashes comps new_comps
      else if cp \<noteq> str ''..'' \<or> (initial_slashes = 0 \<and> new_comps = [])
              \<or> (new_comps \<noteq> [] \<and> last new_comps = str ''..'')
      then normpath_loop initial_slashes comps (new_comps @ [cp])
      else if new_comps \<noteq> [] then normpath_loop initial_slashes comps (butlast new_comps)
      else normpath_loop initial_slashes comps new_comps)"

definition normpath :: "ustr \<Rightarrow> ustr" where
  "normpath path =
     (if path = [] then str ''.''
      else
        (let initial_slashes =
               (if prefix [47] path
                then (if prefix [47, 47] path \<and> \<not> prefix [47, 47, 47] path then 2 else 1)
                else (0 :: nat));
             comps = normpath_loop initial_slashes (split_sep [47] path) [];
             joined = replicate initial_slashes 47 @ join_with [47] comps
         in if joined = [] then str ''.'' else joined))"

subsection \<open>urllib.parse\<close>

definition hexval :: "char \<Rightarrow> nat option" where
  "hexval c =
     (let n = (of_char c :: nat) in
      if 48 \<le> n \<and> n \<le> 57 then Some (n - 48)
      else if 65 \<le> n \<and> n \<le> 70 then Some (n - 55)
      else if 97 \<le> n \<and> n \<le> 102 then Some (n - 87)
      else None)"

text \<open>
  \<^verbatim>\<open>unquote_to_bytes\<close>: the text is split at every percent sign; a piece after one starts
  with two hexadecimal digits and they become one byte, or the percent sign is kept.
\<close>

definition unquote_item :: "bytes \<Rightarrow> bytes" where
  "unquote_item item =
     (case item of
        h1 # h2 # rest \<Rightarrow>
          (case (hexval h1, hexval h2) of
             (Some a, Some b) \<Rightarrow> char_of (16 * a + b) # rest
           | _ \<Rightarrow> CHR ''%'' # item)
      | _ \<Rightarrow> CHR ''%'' # item)"

definition unquote_to_bytes :: "bytes \<Rightarrow> bytes" where
  "unquote_to_bytes s =
     (case split_sep ''%'' s of
        [] \<Rightarrow> []
      | p # items \<Rightarrow> p @ concat (map unquote_item items))"

text \<open>
  \<^verbatim>\<open>unquote(string)\<close> with its defaults (UTF-8, \<^verbatim>\<open>errors='replace'\<close>): every maximal
  run of ASCII characters is unquoted to bytes and decoded; the characters between the runs
  are kept.  \<open>run\<close> is the ASCII run read so far.
\<close>

definition unquote_run :: "ustr \<Rightarrow> ustr" where
  "unquote_run run = utf8_decode Replace (unquote_to_bytes (map char_of run))"

fun unquote_parts :: "ustr \<Rightarrow> ustr \<Rightarrow> ustr" where
  "unquote_parts run [] = unquote_run run"
| "unquote_parts run (c # cs) =
     (if c < 128 then unquote_parts (run @ [c]) cs
      else unquote_run run @ c # unquote_parts [] cs)"

definition unquote :: "ustr \<Rightarrow> ustr" where
  "unquote s = (if 37 \<notin> set s then s else unquote_parts [] s)"

text \<open>
  \<^verbatim>\<open>quote(string)\<close> with its default \<^verbatim>\<open>safe='/'\<close>: the text is encoded as UTF-8
  (strictly, so a surrogate raises), and every byte that is not a letter, a digit or one of
  \<^verbatim>\<open>_.-~/\<close> is written as a percent sign and two capital hexadecimal digits.
\<close>

definition always_safe :: "nat \<Rightarrow> bool" where
  "always_safe n \<longleftrightarrow>
     (65 \<le> n \<and> n \<le> 90) \<or> (97 \<le> n \<and> n \<le> 122) \<or> (48 \<le> n \<and> n \<le> 57)
     \<or> n = 95 \<or> n = 46 \<or> n = 45 \<or> n = 126"

definition hexdigit :: "nat \<Rightarrow> nat" where
  "hexdigit d = (if d < 10 then 48 + d else 55 + d)"

definition quote_byte :: "char \<Rightarrow> ustr" where
  "quote_byte b =
     (let n = (of_char b :: nat) in
      if always_safe n \<or> n = 47 then [n] else [37, hexdigit (n div 16), hexdigit (n mod 16)])"

definition quote :: "ustr \<Rightarrow> ustr option" where
  "quote s = map_option (\<lambda>bs. concat (map quote_byte bs)) (utf8_encode s)"

section \<open>server.py\<close>

subsection \<open>The environment\<close>

text \<open>
  What the handler reads from outside: the file system, the table of
  \<^verbatim>\<open>mimetypes.guess_type\<close>, and the clock.  A path names nothing, a file or a
  directory; a file whose bytes are \<open>None\<close> cannot be opened or read
  (\<^verbatim>\<open>IOError\<close>), a directory whose names are \<open>None\<close> cannot be listed
  (\<^verbatim>\<open>OSError\<close>).  \<open>utcnow\<close> is the value of \<^verbatim>\<open>datetime.utcnow()\<close>: the
  fields that \<^verbatim>\<open>strftime\<close> reads, the weekday being the one of the date.
\<close>

datatype node = File "bytes option" | Dir "ustr list option"

datatype weekday = Monday | Tuesday | Wednesday | Thursday | Friday | Saturday | Sunday

datatype month =
  January | February | March | April | May | June | July | August | September | October
  | November | December

record datetime =
  dt_weekday :: weekday
  dt_day :: nat
  dt_month :: month
  dt_year :: nat
  dt_hour :: nat
  dt_minute :: nat
  dt_second :: nat

record env =
  fs :: "ustr \<Rightarrow> node option"
  guess_type :: "ustr \<Rightarrow> ustr option"
  utcnow :: datetime

text \<open>
  \<^verbatim>\<open>strftime("%a, %d %b %Y %H:%M:%S GMT")\<close> in the C locale, which a Python process
  has for times unless it sets another: abbreviated English names, day, hour, minute and
  second with two digits, the year in decimal.
\<close>

definition day_abbr :: "weekday \<Rightarrow> string" where
  "day_abbr d =
     (case d of Monday \<Rightarrow> ''Mon'' | Tuesday \<Rightarrow> ''Tue'' | Wednesday \<Rightarrow> ''Wed''
      | Thursday \<Rightarrow> ''Thu'' | Friday \<Rightarrow> ''Fri'' | Saturday \<Rightarrow> ''Sat'' | Sunday \<Rightarrow> ''Sun'')"

definition month_abbr :: "month \<Rightarrow> string" where
  "month_abbr m =
     (case m of January \<Rightarrow> ''Jan'' | February \<Rightarrow> ''Feb'' | March \<Rightarrow> ''Mar''
      | April \<Rightarrow> ''Apr'' | May \<Rightarrow> ''May'' | June \<Rightarrow> ''Jun'' | July \<Rightarrow> ''Jul''
      | August \<Rightarrow> ''Aug'' | September \<Rightarrow> ''Sep'' | October \<Rightarrow> ''Oct''
      | November \<Rightarrow> ''Nov'' | December \<Rightarrow> ''Dec'')"

definition decimal :: "nat \<Rightarrow> string" where
  "decimal n = map char_of (show_nat n)"

definition two_digits :: "nat \<Rightarrow> string" where
  "two_digits n = (if n < 10 then CHR ''0'' # decimal n else decimal n)"

definition http_date :: "datetime \<Rightarrow> string" where
  "http_date t =
     day_abbr (dt_weekday t) @ '', '' @ two_digits (dt_day t) @ '' ''
     @ month_abbr (dt_month t) @ '' '' @ decimal (dt_year t) @ '' ''
     @ two_digits (dt_hour t) @ '':'' @ two_digits (dt_minute t) @ '':''
     @ two_digits (dt_second t) @ '' GMT''"

definition date_text :: "env \<Rightarrow> string" where
  "date_text e = http_date (utcnow e)"

definition path_exists :: "env \<Rightarrow> ustr \<Rightarrow> bool" where
  "path_exists e p = (case fs e p of None \<Rightarrow> False | Some _ \<Rightarrow> True)"

definition isdir :: "env \<Rightarrow> ustr \<Rightarrow> bool" where
  "isdir e p = (case fs e p of Some (Dir _) \<Rightarrow> True | _ \<Rightarrow> False)"

definition listdir :: "env \<Rightarrow> ustr \<Rightarrow> ustr list option" where
  "listdir e p = (case fs e p of Some (Dir names) \<Rightarrow> names | _ \<Rightarrow> None)"

definition read_file :: "env \<Rightarrow> ustr \<Rightarrow> bytes option" where
  "read_file e p = (case fs e p of Some (File content) \<Rightarrow> content | _ \<Rightarrow> None)"

subsection \<open>SUPPORTED_MIMES\<close>

definition SUPPORTED_MIMES :: "(ustr \<times> ustr) list" where
  "SUPPORTED_MIMES =
     [(str ''.html'', str ''text/html''),
      (str ''.png'', str ''image/png''),
      (str ''.pdf'', str ''application/pdf'')]"

subsection \<open>send_response and send_404\<close>

text \<open>
  A response as the two senders build it: the list \<^verbatim>\<open>response_headers\<close> and the body.
  \<open>encode_response\<close> is the byte string handed to \<^verbatim>\<open>sendall\<close>:
  \<^verbatim>\<open>'\r\n'.join(response_headers).encode('utf-8') + b'\r\n\r\n' + body\<close>.
\<close>

record response =
  resp_headers :: "ustr list"
  resp_body :: bytes

definition encode_response :: "response \<Rightarrow> bytes option" where
  "encode_response r =
     map_option (\<lambda>h. h @ CRLFCRLF @ resp_body r)
       (utf8_encode (join_with (str CRLF) (resp_headers r)))"

definition send_response :: "env \<Rightarrow> int \<Rightarrow> ustr \<Rightarrow> ustr \<Rightarrow> bytes \<Rightarrow> response" where
  "send_response e status_code status_text content_type body =
     \<lparr> resp_headers =
         [str ''HTTP/1.1 '' @ show_int status_code @ str '' '' @ status_text,
          str ''Date: '' @ str (date_text e),
          str ''Content-Type: '' @ content_type,
          str ''Content-Length: '' @ show_nat (length body),
          str ''Connection: close''],
       resp_body = body \<rparr>"

definition send_404 :: "env \<Rightarrow> ustr \<Rightarrow> exn + response" where
  "send_404 e msg =
     (case utf8_encode
             (str ''<html><body><h1>404 Not Found</h1><p>'' @ msg @ str ''</p></body></html>'') of
        None \<Rightarrow> Inl UnicodeEncodeError
      | Some html_body \<Rightarrow>
          Inr (send_response e 404 (str ''Not Found'') (str ''text/html; charset=utf-8'')
                 html_body))"

definition default_404_msg :: ustr where
  "default_404_msg = str ''The requested file or resource was not found.''"

text \<open>The redirect of lines 93 to 101, built without \<^verbatim>\<open>send_response\<close>.\<close>

definition redirect_response :: "env \<Rightarrow> ustr \<Rightarrow> response" where
  "redirect_response e url_path =
     (let redirect_url = url_path @ str ''/'' in
      \<lparr> resp_headers =
          [str ''HTTP/1.1 301 Moved Permanently'',
           str ''Location: '' @ redirect_url,
           str ''Date: '' @ str (date_text e),
           str ''Content-Length: 0'',
           str ''Connection: close''],
        resp_body = [] \<rparr>)"

subsection \<open>generate_dir_listing\<close>

definition listing_head :: "ustr \<Rightarrow> ustr" where
  "listing_head requested_path =
     str ''\<newline><!DOCTYPE html>\<newline><html>\<newline><head>\<newline>    <title>Directory Listing for ''
     @ requested_path
     @ str ''</title>\<newline>    <style>\<newline>        body { font-family: monospace; }\<newline>''
     @ str ''        a { text-decoration: none; }\<newline>        pre { margin: 0; }\<newline>''
     @ str ''    </style>\<newline></head>\<newline><body>\<newline>    <h1>Directory listing for ''
     @ requested_path
     @ str ''</h1>\<newline>    <hr>\<newline>    <pre>\<newline>''"

definition listing_tail :: ustr where
  "listing_tail = str ''\<newline>    </pre>\<newline>    <hr>\<newline></body>\<newline></html>\<newline>''"

text \<open>One line of the listing: \<^verbatim>\<open>f'<a href="{link}">{item}</a>\n'\<close>.\<close>

definition anchor :: "ustr \<Rightarrow> ustr \<Rightarrow> ustr" where
  "anchor link label = str ''<a href='' @ [34] @ link @ [34] @ str ''>'' @ label @ str ''</a>'' @ [10]"

text \<open>\<^verbatim>\<open>.replace('\\', '/')\<close>.\<close>

definition replace_backslash :: "ustr \<Rightarrow> ustr" where
  "replace_backslash s = map (\<lambda>c. if c = 92 then 47 else c) s"

text \<open>The loop over the sorted names; \<open>html\<close> is the text built so far.\<close>

fun listing_loop :: "env \<Rightarrow> ustr \<Rightarrow> ustr \<Rightarrow> ustr list \<Rightarrow> ustr \<Rightarrow> exn + ustr" where
  "listing_loop e path requested_path [] html = Inr html"
| "listing_loop e path requested_path (item # items) html =
     (case quote item of
        None \<Rightarrow> Inl UnicodeEncodeError
      | Some encoded_item \<Rightarrow>
          (let full_path = path_join path item;
               link = replace_backslash (path_join requested_path encoded_item)
           in if isdir e full_path
              then listing_loop e path requested_path items
                     (html @ anchor (link @ str ''/'') (item @ str ''/''))
              else listing_loop e path requested_path items (html @ anchor link item)))"

definition generate_dir_listing :: "env \<Rightarrow> ustr \<Rightarrow> ustr \<Rightarrow> exn + bytes" where
  "generate_dir_listing e path requested_path =
     (case listdir e path of
        None \<Rightarrow> Inl OSError
      | Some names \<Rightarrow>
          (let items = sort names;
               html = listing_head requested_path;
               html = (if requested_path \<noteq> str ''/''
                       then html @ anchor (normpath (path_join requested_path (str ''..'')))
                                     (str ''../'')
                       else html)
           in case listing_loop e path requested_path items html of
                Inl x \<Rightarrow> Inl x
              | Inr html \<Rightarrow>
                  (case utf8_encode (html @ listing_tail) of
                     None \<Rightarrow> Inl UnicodeEncodeError
                   | Some b \<Rightarrow> Inr b)))"

subsection \<open>handle_request\<close>

text \<open>
  Lines 62 to 67: the first line, stripped, must split into exactly three words; the second
  is unquoted.  Any other number of words raises inside the \<^verbatim>\<open>try\<close> and the handler
  returns: the value \<open>None\<close>.
\<close>

definition request_words :: "ustr \<Rightarrow> ustr list" where
  "request_words request = split_ws (strip (first_piece [10] request))"

definition parse_request_line :: "ustr \<Rightarrow> (ustr \<times> ustr) option" where
  "parse_request_line request =
     (case request_words request of
        [meth, url_path, _] \<Rightarrow> Some (meth, unquote url_path)
      | _ \<Rightarrow> None)"

text \<open>Lines 108 and 109, and the test of line 111.\<close>

definition mime_type_of :: "env \<Rightarrow> ustr \<Rightarrow> ustr option" where
  "mime_type_of e local_path =
     (let ext = lower (snd (splitext local_path)) in
      case map_of SUPPORTED_MIMES ext of
        Some m \<Rightarrow> Some m
      | None \<Rightarrow> guess_type e local_path)"

definition classify :: "env \<Rightarrow> ustr \<Rightarrow> ustr option" where
  "classify e local_path =
     (case mime_type_of e local_path of
        None \<Rightarrow> None
      | Some m \<Rightarrow> if m \<in> set (map snd SUPPORTED_MIMES) then Some m else None)"

text \<open>Lines 108 to 120: a path that is no directory.\<close>

definition serve_file :: "env \<Rightarrow> ustr \<Rightarrow> exn + response" where
  "serve_file e local_path =
     (case classify e local_path of
        None \<Rightarrow> send_404 e (str ''Unsupported file type or extension.'')
      | Some mime_type \<Rightarrow>
          (case read_file e local_path of
             Some body \<Rightarrow> Inr (send_response e 200 (str ''OK'') mime_type body)
           | None \<Rightarrow> send_404 e (str ''File could not be opened/read.'')))"

text \<open>
  The handler from the received bytes to the response it builds: \<open>Inr None\<close> when it
  returns without sending, \<open>Inl\<close> when an exception leaves it.
\<close>

definition lstrip_slash :: "ustr \<Rightarrow> ustr" where
  "lstrip_slash s = dropWhile (\<lambda>c. c = 47) s"

definition respond :: "env \<Rightarrow> ustr \<Rightarrow> bytes \<Rightarrow> exn + response option" where
  "respond e doc_root data =
     (let request = utf8_decode Ignore data in
      if request = [] then Inr None
      else
        (case parse_request_line request of
           None \<Rightarrow> Inr None
         | Some (meth, url_path) \<Rightarrow>
             if meth \<noteq> str ''GET'' then
               Inr (Some (send_response e 501 (str ''Not Implemented'') (str ''text/plain'')
                            ''501 Not Implemented''))
             else if sublist (str ''..'') url_path then
               Inr (Some (send_response e 403 (str ''Forbidden'') (str ''text/plain'')
                            ''403 Forbidden: Directory traversal attempt.''))
             else
               (let is_directory_request = suffix (str ''/'') url_path;
                    dir_path = path_join doc_root (lstrip_slash url_path);
                    local_path =
                      (if is_directory_request then path_join dir_path (str ''index.html'')
                       else dir_path)
                in
                if \<not> path_exists e local_path \<and> \<not> (is_directory_request \<and> isdir e dir_path)
                then map_sum id Some (send_404 e default_404_msg)
                else
                  (let local_path = (if \<not> path_exists e local_path then dir_path else local_path)
                   in
                   if isdir e local_path then
                     (if \<not> suffix (str ''/'') url_path
                      then Inr (Some (redirect_response e url_path))
                      else
                        (case generate_dir_listing e local_path url_path of
                           Inl x \<Rightarrow> Inl x
                         | Inr body \<Rightarrow>
                             Inr (Some (send_response e 200 (str ''OK'')
                                          (str ''text/html; charset=utf-8'') body))))
                   else map_sum id Some (serve_file e local_path)))))"

subsection \<open>The socket\<close>

text \<open>
  A connection: the bytes its one \<^verbatim>\<open>recv\<close> can return, the bytes written to it so far,
  and whether it has been closed.
\<close>

record sock =
  incoming :: bytes
  sent :: bytes
  closed :: bool

definition recv :: "nat \<Rightarrow> sock \<Rightarrow> bytes \<times> sock" where
  "recv n s = (take n (incoming s), s\<lparr>incoming := drop n (incoming s)\<rparr>)"

definition sendall :: "bytes \<Rightarrow> sock \<Rightarrow> sock" where
  "sendall data s = s\<lparr>sent := sent s @ data\<rparr>"

text \<open>
  \<^verbatim>\<open>handle_request(client_socket, doc_root)\<close>: the socket afterwards, and the exception
  that left the handler, if one did.
\<close>

definition handle_request :: "env \<Rightarrow> sock \<Rightarrow> ustr \<Rightarrow> sock \<times> exn option" where
  "handle_request e client_socket doc_root =
     (case recv 4096 client_socket of
        (data, s) \<Rightarrow>
          (case respond e doc_root data of
             Inl x \<Rightarrow> (s, Some x)
           | Inr None \<Rightarrow> (s, None)
           | Inr (Some r) \<Rightarrow>
               (case encode_response r of
                  None \<Rightarrow> (s, Some UnicodeEncodeError)
                | Some w \<Rightarrow> (sendall w s, None))))"

text \<open>
  One turn of the accept loop of \<^verbatim>\<open>main\<close>: the handler runs, the socket is closed on
  both paths, and the loop goes on (the second component).
\<close>

definition serve_connection :: "env \<Rightarrow> sock \<Rightarrow> ustr \<Rightarrow> sock \<times> bool" where
  "serve_connection e client_socket doc_root =
     (case handle_request e client_socket doc_root of
        (s, None) \<Rightarrow> (s\<lparr>closed := True\<rparr>, True)
      | (s, Some x) \<Rightarrow> (s\<lparr>closed := True\<rparr>, True))"

subsection \<open>Notions the claims speak of\<close>

text \<open>A path segment equal to \<^verbatim>\<open>..\<close>: one of the pieces between the slashes.\<close>

definition has_dotdot_segment :: "ustr \<Rightarrow> bool" where
  "has_dotdot_segment p \<longleftrightarrow> str ''..'' \<in> set (split_sep (str ''/'') p)"

definition status_line :: "response \<Rightarrow> ustr" where
  "status_line r = (case resp_headers r of [] \<Rightarrow> [] | l # _ \<Rightarrow> l)"

definition forbidden_response :: "env \<Rightarrow> response" where
  "forbidden_response e =
     send_response e 403 (str ''Forbidden'') (str ''text/plain'')
       ''403 Forbidden: Directory traversal attempt.''"

definition unsupported_response :: "env \<Rightarrow> response" where
  "unsupported_response e =
     send_response e 404 (str ''Not Found'') (str ''text/html; charset=utf-8'')
       (''<html><body><h1>404 Not Found</h1><p>''
        @ ''Unsupported file type or extension.'' @ ''</p></body></html>'')"

text \<open>
  The UTF-8 bytes of a text: what \<open>utf8_encode\<close> returns when every code point can be
  encoded.
\<close>

definition utf8_bytes :: "ustr \<Rightarrow> bytes" where
  "utf8_bytes s = concat (map utf8_enc1 s)"

text \<open>A text as the client reads it back from the wire: its UTF-8 bytes, decoded as Latin-1.\<close>

definition wire_text :: "ustr \<Rightarrow> ustr" where
  "wire_text s = latin1_decode (utf8_bytes s)"

text \<open>
  A header of the bytes \<open>w\<close> sent, as \<^verbatim>\<open>client.py\<close> finds it: \<^verbatim>\<open>get_header_value\<close> on the
  lines of the header section of \<open>w\<close>.  The text it reads is decoded as Latin-1, so all its
  code points are below 256.
\<close>

definition wire_header :: "bytes \<Rightarrow> string \<Rightarrow> ustr option" where
  "wire_header w name = get_header_value (fst (decode_response w)) (str name)"

text \<open>Text of printable ASCII characters: the space and the code points 33 to 126.\<close>

definition printable :: "ustr \<Rightarrow> bool" where
  "printable s \<longleftrightarrow> (\<forall>c\<in>set s. 32 \<le> c \<and> c < 127)"


section \<open>An example document tree\<close>

text \<open>
  A small environment for the concrete checks: a document root \<^verbatim>\<open>root\<close> with a
  subdirectory, a readable and an unreadable file, a directory whose name holds a backslash
  (code point 92), and a \<^verbatim>\<open>guess_type\<close> that knows the extension \<^verbatim>\<open>.htm\<close>, as
  the table of Python's \<^verbatim>\<open>mimetypes\<close> does.
\<close>

definition demo_fs :: "ustr \<Rightarrow> node option" where
  "demo_fs p =
     (if p = str ''root'' \<or> p = str ''root/''
      then Some (Dir (Some [str ''sub'', str ''b.png'', str ''A b.html'', str ''page.htm'',
                            str ''a'' @ [92] @ str ''b'']))
      else if p = str ''root/sub'' \<or> p = str ''root/sub/''
      then Some (Dir (Some [str ''z'', str ''a..b'', str ''B'']))
      else if p = str ''root/A b.html'' then Some (File (Some ''<p>hi</p>''))
      else if p = str ''root/page.htm'' then Some (File (Some ''<p>htm</p>''))
      else if p = str ''root/b.png'' then Some (File None)
      else if p = str ''root/sub/a..b'' then Some (Dir (Some []))
      else if p = str ''root/sub/z'' then Some (File (Some ''zz''))
      else if p = str ''root/sub/B'' then Some (Dir (Some []))
      else if p = str ''root/a'' @ [92] @ str ''b'' \<or> p = str ''root/a'' @ [92] @ str ''b/''
      then Some (Dir (Some [str ''x'']))
      else if p = str ''root/a'' @ [92] @ str ''b/x'' then Some (File (Some ''x''))
      else None)"

definition demo_guess_type :: "ustr \<Rightarrow> ustr option" where
  "demo_guess_type p =
     (if lower (snd (splitext p)) = str ''.htm'' then Some (str ''text/html'') else None)"

definition demo_clock :: datetime where
  "demo_clock =
     \<lparr> dt_weekday = Wednesday, dt_day = 4, dt_month = November, dt_year = 2026,
       dt_hour = 8, dt_minute = 0, dt_second = 0 \<rparr>"

definition demo_env :: env where
  "demo_env =
     \<lparr> fs = demo_fs, guess_type = demo_guess_type,
       utcnow = demo_clock \<rparr>"

definition demo_sock :: "bytes \<Rightarrow> sock" where
  "demo_sock req = \<lparr> incoming = req, sent = [], closed = False \<rparr>"



section \<open>Searching and splitting\<close>

lemma split_go_no_occurrence:
  "\<not> sublist sep s \<Longrightarrow> split_go sep cur s = [cur @ s]"
proof (induction s arbitrary: cur)
  case Nil
  then show ?case by simp
next
  case (Cons x xs)
  have "\<not> prefix sep (x # xs)" using Cons.prems by (meson prefix_imp_sublist)
  moreover have "\<not> sublist sep xs" using Cons.prems by (meson sublist_Cons_right)
  ultimately show ?case using Cons.IH[of "cur @ [x]"] by simp
qed

lemma find_from_no_occurrence:
  "\<not> sublist sub s \<Longrightarrow> find_from sub s i = - 1"
proof (induction s arbitrary: i)
  case Nil
  then show ?case by auto
next
  case (Cons x xs)
  have "\<not> prefix sub (x # xs)" using Cons.prems by (meson prefix_imp_sublist)
  moreover have "\<not> sublist sub xs" using Cons.prems by (meson sublist_Cons_right)
  ultimately show ?case using Cons.IH by simp
qed

lemma sublist_map_inj:
  assumes "inj f" shows "sublist (map f xs) (map f ys) \<longleftrightarrow> sublist xs ys"
proof
  assume "sublist (map f xs) (map f ys)"
  then obtain ps ss where "map f ys = ps @ map f xs @ ss" by (auto simp: sublist_def)
  then obtain a b c where "ys = a @ b @ c" "map f b = map f xs"
    by (metis append_eq_map_conv)
  then show "sublist xs ys" using assms by (auto simp: sublist_def inj_map_eq_map)
next
  assume "sublist xs ys" then show "sublist (map f xs) (map f ys)"
    by (rule map_mono_sublist)
qed

lemma inj_of_char_nat: "inj (of_char :: char \<Rightarrow> nat)"
  by (rule injI) simp


lemma sublist_latin1_decode:
  "sublist (str sep) (latin1_decode bs) \<longleftrightarrow> sublist sep bs"
  unfolding str_def latin1_decode_def by (rule sublist_map_inj[OF inj_of_char_nat])


section \<open>Claims about the client's decoder\<close>

text \<open>
  C8.  For every received buffer that holds no double CRLF, the client's decoder does not
  fail: the whole buffer, decoded as Latin-1 and split at the CRLFs, is the header section,
  and the body is empty.  For a non-empty buffer this is what \<^verbatim>\<open>http_get\<close> returns; it
  does not report a failure.
\<close>

theorem decode_response_without_delimiter:
  assumes "\<not> sublist CRLFCRLF response_data"
  shows "decode_response response_data
           = (split_sep (str CRLF) (latin1_decode response_data), [])
         \<and> (response_data \<noteq> [] \<longrightarrow>
              http_get_received response_data
                = Some (split_sep (str CRLF) (latin1_decode response_data), []))"
proof -
  have idx: "bytes_find response_data CRLFCRLF = - 1"
    unfolding bytes_find_def using assms by (rule find_from_no_occurrence)
  have "\<not> sublist (str CRLFCRLF) (latin1_decode response_data)"
    using assms by (simp add: sublist_latin1_decode)
  then have "first_piece (str CRLFCRLF) (latin1_decode response_data)
               = latin1_decode response_data"
    by (simp add: first_piece_def split_sep_def split_go_no_occurrence)
  with idx have "decode_response response_data
           = (split_sep (str CRLF) (latin1_decode response_data), [])"
    by (simp add: decode_response_def)
  then show ?thesis by (simp add: http_get_received_def)
qed

theorem decode_response_without_delimiter_witness:
  "\<not> sublist CRLFCRLF (''HTTP/1.1 200 OK'' @ CRLF @ ''Content-Type: text/html'' @ CRLF @ ''Content-Le'')
   \<and> http_get_received (''HTTP/1.1 200 OK'' @ CRLF @ ''Content-Type: text/html'' @ CRLF @ ''Content-Le'')
       = Some ([str ''HTTP/1.1 200 OK'', str ''Content-Type: text/html'', str ''Content-Le''], [])"
proof -
  have h: "\<not> sublist CRLFCRLF (''HTTP/1.1 200 OK'' @ CRLF @ ''Content-Type: text/html'' @ CRLF @ ''Content-Le'')"
    by (simp add: CRLFCRLF_def CRLF_def sublist_Cons_right)
  have s: "split_sep (str CRLF) (latin1_decode (''HTTP/1.1 200 OK'' @ CRLF @ ''Content-Type: text/html'' @ CRLF @ ''Content-Le''))
            = [str ''HTTP/1.1 200 OK'', str ''Content-Type: text/html'', str ''Content-Le'']"
    by (simp add: split_sep_def str_def latin1_decode_def CRLF_def)
  from decode_response_without_delimiter[OF h] h s show ?thesis by simp
qed

section \<open>Decoding: helper facts\<close>

lemma split_go_not_Nil: "split_go sep cur s \<noteq> []"
  by (induction sep cur s rule: split_go.induct) auto

lemma join_with_Cons: "ps \<noteq> [] \<Longrightarrow> join_with sep (p # ps) = p @ sep @ join_with sep ps"
  by (cases ps) auto

lemma join_split_go: "join_with sep (split_go sep cur s) = cur @ s"
proof (induction sep cur s rule: split_go.induct)
  case (1 sep cur)
  then show ?case by simp
next
  case (2 sep cur x xs)
  show ?case
  proof (cases "sep \<noteq> [] \<and> prefix sep (x # xs)")
    case True
    then have step: "split_go sep cur (x # xs) = cur # split_go sep [] (drop (length sep - 1) xs)"
      by simp
    from True obtain rest where rest: "x # xs = sep @ rest" by (auto simp: prefix_def)
    with True have "rest = drop (length sep - 1) xs"
      by (cases sep) (auto simp: append_eq_Cons_conv)
    with rest have xs: "cur @ x # xs = cur @ sep @ drop (length sep - 1) xs" by simp
    have "join_with sep (split_go sep [] (drop (length sep - 1) xs)) = drop (length sep - 1) xs"
      using "2.IH"(1) True by simp
    then have "join_with sep (cur # split_go sep [] (drop (length sep - 1) xs))
                 = cur @ sep @ drop (length sep - 1) xs"
      by (simp add: join_with_Cons split_go_not_Nil)
    with step xs show ?thesis by metis
  next
    case False
    with "2.IH"(2) show ?thesis by auto
  qed
qed

lemma join_split_sep: "join_with sep (split_sep sep s) = s"
  by (simp add: split_sep_def join_split_go)

lemma latin1_roundtrip: "latin1_encode (latin1_decode bs) = bs"
  by (simp add: latin1_encode_def latin1_decode_def comp_def)

lemma utf8_decode_ascii:
  "\<forall>b\<in>set data. of_char b < (128::nat) \<Longrightarrow> utf8_decode h data = latin1_decode data"
  by (induction data) (simp_all add: latin1_decode_def Let_def)

lemma decode_response_header_prefix:
  "prefix (latin1_encode (join_with (str CRLF) (fst (decode_response d)))) d"
proof (cases "bytes_find d CRLFCRLF = - 1")
  case True
  have "join_with (str CRLFCRLF) (split_sep (str CRLFCRLF) (latin1_decode d)) = latin1_decode d"
    by (rule join_split_sep)
  have "prefix (first_piece (str CRLFCRLF) (latin1_decode d)) (latin1_decode d)"
  proof (cases "split_sep (str CRLFCRLF) (latin1_decode d)")
    case Nil
    then show ?thesis by (simp add: first_piece_def)
  next
    case (Cons p ps)
    have "join_with (str CRLFCRLF) (p # ps) = latin1_decode d"
      using join_split_sep[of "str CRLFCRLF" "latin1_decode d"] Cons by simp
    then have "prefix p (latin1_decode d)"
      by (cases ps) (auto intro: prefixI[OF sym])
    with Cons show ?thesis by (simp add: first_piece_def)
  qed
  then obtain r where "latin1_decode d = first_piece (str CRLFCRLF) (latin1_decode d) @ r"
    by (auto simp: prefix_def)
  then have "d = latin1_encode (first_piece (str CRLFCRLF) (latin1_decode d)) @ latin1_encode r"
    by (metis latin1_roundtrip latin1_encode_def map_append)
  then have "prefix (latin1_encode (first_piece (str CRLFCRLF) (latin1_decode d))) d"
    by (metis prefixI)
  with True show ?thesis by (simp add: decode_response_def Let_def join_split_sep)
next
  case False
  then show ?thesis
    by (simp add: decode_response_def Let_def join_split_sep latin1_roundtrip take_is_prefix)
qed

lemma decode_response_body_suffix: "suffix (snd (decode_response d)) d"
  by (simp add: decode_response_def Let_def suffix_drop)

section \<open>The handler: helper facts\<close>

lemma split_go_pieces_sublist:
  "x \<in> set (split_go sep cur s) \<Longrightarrow> sublist x (cur @ s)"
proof (induction sep cur s rule: split_go.induct)
  case (1 sep cur)
  then show ?case by simp
next
  case (2 sep cur y ys)
  show ?case
  proof (cases "sep \<noteq> [] \<and> prefix sep (y # ys)")
    case True
    with "2.prems" have "x = cur \<or> x \<in> set (split_go sep [] (drop (length sep - 1) ys))"
      by simp
    then show ?thesis
    proof
      assume "x = cur"
      then show ?thesis by (simp add: sublist_append_rightI)
    next
      assume "x \<in> set (split_go sep [] (drop (length sep - 1) ys))"
      with "2.IH"(1) True have "sublist x (drop (length sep - 1) ys)" by simp
      moreover have "sublist (drop (length sep - 1) ys) (cur @ y # ys)"
        by (metis append_Cons append_assoc append_take_drop_id sublist_appendI suffix_imp_sublist suffix_drop sublist_order.order_trans sublist_Cons_right sublist_append_leftI)
      ultimately show ?thesis by (rule sublist_order.order_trans)
    qed
  next
    case False
    with "2.prems" have "x \<in> set (split_go sep (cur @ [y]) ys)" by auto
    with "2.IH"(2) False have "sublist x ((cur @ [y]) @ ys)" by blast
    then show ?thesis by simp
  qed
qed

lemma dotdot_segment_sublist:
  "has_dotdot_segment p \<Longrightarrow> sublist (str ''..'') p"
  unfolding has_dotdot_segment_def split_sep_def
  using split_go_pieces_sublist[of "str ''..''" "str ''/''" "[]" p] by simp


declare show_nat.simps [simp del]

lemma http_date_demo: "http_date demo_clock = ''Wed, 04 Nov 2026 08:00:00 GMT''"
  by (simp add: http_date_def demo_clock_def day_abbr_def month_abbr_def two_digits_def
      decimal_def show_nat.simps char_of_eq_iff take_bit_eq_mod)

lemma str_append: "str (a @ b) = str a @ str b"
  by (simp add: str_def)

lemma encodable_of_char [simp]: "encodable (of_char c)"
proof -
  have "(of_char c :: nat) < 256" by simp
  then show ?thesis unfolding encodable_def by linarith
qed

lemma encodable_str [simp]: "list_all encodable (str s)"
  by (simp add: str_def list_all_iff)

lemma digit_show_nat: "c \<in> set (show_nat n) \<Longrightarrow> 48 \<le> c \<and> c \<le> 57"
proof (induction n rule: show_nat.induct)
  case (1 n)
  show ?case
  proof (cases "n < 10")
    case True
    with "1.prems" show ?thesis by (simp add: show_nat.simps[of n])
  next
    case False
    with "1.prems" have "c \<in> set (show_nat (n div 10)) \<or> c = 48 + n mod 10"
      by (auto simp: show_nat.simps[of n])
    then show ?thesis
    proof
      assume "c \<in> set (show_nat (n div 10))"
      with "1.IH" False show ?thesis by simp
    next
      assume "c = 48 + n mod 10"
      moreover have "n mod 10 < 10" by simp
      ultimately show ?thesis by linarith
    qed
  qed
qed

lemma encodable_show_nat [simp]: "list_all encodable (show_nat n)"
  unfolding list_all_iff encodable_def using digit_show_nat by fastforce

lemma encodable_show_int [simp]: "list_all encodable (show_int i)"
  using encodable_show_nat by (simp add: show_int_def encodable_def)

lemma utf8_encode_Some:
  "list_all encodable s \<Longrightarrow> utf8_encode s = Some (concat (map utf8_enc1 s))"
  by (simp add: utf8_encode_def)

lemma encode_send_response:
  assumes "list_all encodable status_text" and "list_all encodable content_type"
  shows "encode_response (send_response e c status_text content_type b)
         = Some (concat (map utf8_enc1
                   (join_with (str CRLF)
                      (resp_headers (send_response e c status_text content_type b))))
                 @ CRLFCRLF @ b)"
  using assms by (simp add: encode_response_def send_response_def utf8_encode_Some)

lemma request_words_Nil: "request_words [] = []"
  by (simp add: request_words_def first_piece_def split_sep_def strip_def split_ws_def)

lemma respond_not_three_words:
  assumes "length (request_words (utf8_decode Ignore data)) \<noteq> 3"
  shows "respond e doc_root data = Inr None"
proof -
  have "parse_request_line (utf8_decode Ignore data) = None"
    using assms by (auto simp: parse_request_line_def split: list.splits)
  then show ?thesis by (simp add: respond_def Let_def)
qed

lemma respond_forbidden:
  assumes "request_words (utf8_decode Ignore data) = [str ''GET'', wire_path, version]"
      and "sublist (str ''..'') (unquote wire_path)"
  shows "respond e doc_root data = Inr (Some (forbidden_response e))"
proof -
  have ne: "utf8_decode Ignore data \<noteq> []"
    using assms(1) request_words_Nil by auto
  have "parse_request_line (utf8_decode Ignore data) = Some (str ''GET'', unquote wire_path)"
    using assms(1) by (simp add: parse_request_line_def)
  with ne assms(2) show ?thesis
    by (simp add: respond_def Let_def forbidden_response_def)
qed

lemma handle_request_sends:
  assumes "respond e doc_root (take 4096 (incoming client_socket)) = Inr (Some r)"
      and "encode_response r = Some w"
  shows "handle_request e client_socket doc_root
         = (sendall w (client_socket\<lparr>incoming := drop 4096 (incoming client_socket)\<rparr>), None)"
  using assms by (simp add: handle_request_def recv_def)

lemma handle_request_silent:
  assumes "respond e doc_root (take 4096 (incoming client_socket)) = Inr None"
  shows "handle_request e client_socket doc_root
         = (client_socket\<lparr>incoming := drop 4096 (incoming client_socket)\<rparr>, None)"
  using assms by (simp add: handle_request_def recv_def)

lemma show_int_403: "show_int 403 = str ''403''"
  by (simp add: show_int_def show_nat.simps str_def)

lemma forbidden_response_shape:
  "status_line (forbidden_response e) = str ''HTTP/1.1 403 Forbidden''
   \<and> str ''Content-Type: text/plain'' \<in> set (resp_headers (forbidden_response e))
   \<and> resp_body (forbidden_response e) = ''403 Forbidden: Directory traversal attempt.''"
  by (simp add: forbidden_response_def send_response_def status_line_def show_int_403 str_def)

lemma forbidden_response_encodes:
  "\<exists>w. encode_response (forbidden_response e) = Some w"
  by (simp add: forbidden_response_def encode_send_response)


lemma char_of_eq_lit:
  "(char_of (n::nat) = c) = (n mod 256 = of_char c)"
  "(c = char_of (n::nat)) = (n mod 256 = of_char c)"
proof -
  show "(char_of n = c) = (n mod 256 = of_char c)"
    by (simp add: char_of_eq_iff take_bit_eq_mod)
  then show "(c = char_of n) = (n mod 256 = of_char c)"
    by auto
qed

lemmas text_simps =
  str_def CRLF_def CRLFCRLF_def latin1_decode_def char_of_eq_lit
  split_sep_def first_piece_def strip_def isspace_def split_ws_def lower_def lower1_def
  lstrip_slash_def

lemmas url_simps =
  unquote_def unquote_run_def unquote_to_bytes_def unquote_item_def hexval_def
  on_error_def is_cont_def

lemmas request_simps =
  request_words_def parse_request_line_def demo_sock_def

lemmas response_simps =
  respond_def handle_request_def recv_def sendall_def send_response_def encode_response_def
  utf8_encode_def utf8_enc1_def encodable_def show_int_def show_nat.simps
  forbidden_response_def demo_env_def date_text_def http_date_demo


section \<open>Claims about the request handler\<close>

text \<open>
  C9.  A request whose first line does not split into exactly three words (a method, a path
  and a version) gets no response: the handler returns without raising and without writing
  a byte to the socket, and the accept loop closes the connection and goes on.
\<close>

theorem unparseable_request_line_dropped:
  assumes "length (request_words (utf8_decode Ignore (take 4096 (incoming client_socket)))) \<noteq> 3"
  shows "handle_request e client_socket doc_root
           = (client_socket\<lparr>incoming := drop 4096 (incoming client_socket)\<rparr>, None)
         \<and> sent (fst (handle_request e client_socket doc_root)) = sent client_socket
         \<and> serve_connection e client_socket doc_root
           = (client_socket\<lparr>incoming := drop 4096 (incoming client_socket), closed := True\<rparr>,
              True)"
proof -
  have "respond e doc_root (take 4096 (incoming client_socket)) = Inr None"
    using assms by (rule respond_not_three_words)
  then have h: "handle_request e client_socket doc_root
           = (client_socket\<lparr>incoming := drop 4096 (incoming client_socket)\<rparr>, None)"
    by (rule handle_request_silent)
  then show ?thesis by (simp add: serve_connection_def)
qed

theorem unparseable_request_line_dropped_witness:
  "length (request_words (utf8_decode Ignore
       (take 4096 (incoming (demo_sock (''GET /index.html'' @ CRLF @ CRLF)))))) \<noteq> 3
   \<and> serve_connection demo_env (demo_sock (''GET /index.html'' @ CRLF @ CRLF)) (str ''root'')
       = (\<lparr>incoming = [], sent = [], closed = True\<rparr>, True)"
proof -
  have h: "length (request_words (utf8_decode Ignore
       (take 4096 (incoming (demo_sock (''GET /index.html'' @ CRLF @ CRLF)))))) \<noteq> 3"
    by (simp add: request_simps text_simps)
  have d: "drop 4096 (incoming (demo_sock (''GET /index.html'' @ CRLF @ CRLF))) = []"
    by (simp add: demo_sock_def CRLF_def)
  from unparseable_request_line_dropped[OF h, of demo_env "str ''root''"] h d
  show ?thesis by (simp add: demo_sock_def)
qed

text \<open>
  C1.  For every GET request (the only requests the handler resolves a path for) whose
  path, after percent-decoding, holds a \<^verbatim>\<open>..\<close> segment, the handler builds the
  403 response with the plain-text traversal warning and sends its encoding.  The test
  reads the decoded path \<open>unquote wire_path\<close>, so the encoding on the wire does not matter.
\<close>

theorem traversal_segment_forbidden:
  assumes "request_words (utf8_decode Ignore (take 4096 (incoming client_socket)))
             = [str ''GET'', wire_path, version]"
      and "has_dotdot_segment (unquote wire_path)"
  shows "respond e doc_root (take 4096 (incoming client_socket))
           = Inr (Some (forbidden_response e))
         \<and> status_line (forbidden_response e) = str ''HTTP/1.1 403 Forbidden''
         \<and> str ''Content-Type: text/plain'' \<in> set (resp_headers (forbidden_response e))
         \<and> resp_body (forbidden_response e) = ''403 Forbidden: Directory traversal attempt.''
         \<and> (\<exists>w. encode_response (forbidden_response e) = Some w
                \<and> handle_request e client_socket doc_root
                    = (sendall w (client_socket\<lparr>incoming := drop 4096 (incoming client_socket)\<rparr>),
                       None))"
proof -
  have sub: "sublist (str ''..'') (unquote wire_path)"
    using assms(2) by (rule dotdot_segment_sublist)
  have r: "respond e doc_root (take 4096 (incoming client_socket))
           = Inr (Some (forbidden_response e))"
    using assms(1) sub by (rule respond_forbidden)
  obtain w where w: "encode_response (forbidden_response e) = Some w"
    using forbidden_response_encodes by blast
  have "handle_request e client_socket doc_root
          = (sendall w (client_socket\<lparr>incoming := drop 4096 (incoming client_socket)\<rparr>), None)"
    using r w by (rule handle_request_sends)
  with r w forbidden_response_shape[of e] show ?thesis by blast
qed

theorem traversal_segment_forbidden_witness:
  "has_dotdot_segment (unquote (str ''/%2e%2e/etc/passwd''))
   \<and> respond demo_env (str ''root'')
        (take 4096 (incoming (demo_sock (''GET /%2e%2e/etc/passwd HTTP/1.1'' @ CRLF @ CRLF))))
       = Inr (Some (forbidden_response demo_env))
   \<and> sent (fst (handle_request demo_env
        (demo_sock (''GET /%2e%2e/etc/passwd HTTP/1.1'' @ CRLF @ CRLF)) (str ''root'')))
       = ''HTTP/1.1 403 Forbidden'' @ CRLF @ ''Date: Wed, 04 Nov 2026 08:00:00 GMT'' @ CRLF
         @ ''Content-Type: text/plain'' @ CRLF @ ''Content-Length: 43'' @ CRLF
         @ ''Connection: close'' @ CRLF @ CRLF @ ''403 Forbidden: Directory traversal attempt.''"
proof -
  have h: "request_words (utf8_decode Ignore
       (take 4096 (incoming (demo_sock (''GET /%2e%2e/etc/passwd HTTP/1.1'' @ CRLF @ CRLF)))))
     = [str ''GET'', str ''/%2e%2e/etc/passwd'', str ''HTTP/1.1'']"
    by (simp add: request_simps text_simps)
  have d: "has_dotdot_segment (unquote (str ''/%2e%2e/etc/passwd''))"
    by (simp add: has_dotdot_segment_def url_simps text_simps)
  have enc: "encode_response (forbidden_response demo_env)
       = Some (''HTTP/1.1 403 Forbidden'' @ CRLF @ ''Date: Wed, 04 Nov 2026 08:00:00 GMT'' @ CRLF
         @ ''Content-Type: text/plain'' @ CRLF @ ''Content-Length: 43'' @ CRLF
         @ ''Connection: close'' @ CRLF @ CRLF @ ''403 Forbidden: Directory traversal attempt.'')"
    by (simp add: response_simps text_simps)
  from traversal_segment_forbidden[OF h d, of demo_env "str ''root''"] d enc
  show ?thesis by (auto simp: sendall_def demo_sock_def)
qed

text \<open>
  C10.  For every GET request whose decoded path holds the two characters \<^verbatim>\<open>..\<close>
  anywhere, the handler answers 403.  The test is a substring test: every path with a
  \<^verbatim>\<open>..\<close> segment passes it, and so does \<^verbatim>\<open>/notes..txt\<close>, which has no such
  segment.
\<close>

theorem dotdot_substring_forbidden:
  assumes "request_words (utf8_decode Ignore (take 4096 (incoming client_socket)))
             = [str ''GET'', wire_path, version]"
      and "sublist (str ''..'') (unquote wire_path)"
  shows "respond e doc_root (take 4096 (incoming client_socket))
           = Inr (Some (forbidden_response e))
         \<and> status_line (forbidden_response e) = str ''HTTP/1.1 403 Forbidden''
         \<and> (\<exists>w. encode_response (forbidden_response e) = Some w
                \<and> handle_request e client_socket doc_root
                    = (sendall w (client_socket\<lparr>incoming := drop 4096 (incoming client_socket)\<rparr>),
                       None))
         \<and> (\<forall>p. has_dotdot_segment p \<longrightarrow> sublist (str ''..'') p)
         \<and> sublist (str ''..'') (unquote (str ''/notes..txt''))
         \<and> \<not> has_dotdot_segment (unquote (str ''/notes..txt''))"
proof -
  have r: "respond e doc_root (take 4096 (incoming client_socket))
           = Inr (Some (forbidden_response e))"
    using assms by (rule respond_forbidden)
  obtain w where w: "encode_response (forbidden_response e) = Some w"
    using forbidden_response_encodes by blast
  have hr: "handle_request e client_socket doc_root
          = (sendall w (client_socket\<lparr>incoming := drop 4096 (incoming client_socket)\<rparr>), None)"
    using r w by (rule handle_request_sends)
  have a: "sublist (str ''..'') (unquote (str ''/notes..txt''))"
    by (simp add: url_simps text_simps sublist_Cons_right)
  have b: "\<not> has_dotdot_segment (unquote (str ''/notes..txt''))"
    by (simp add: has_dotdot_segment_def url_simps text_simps)
  from r w hr forbidden_response_shape[of e] dotdot_segment_sublist a b
  show ?thesis by blast
qed

theorem dotdot_substring_forbidden_witness:
  "sublist (str ''..'') (unquote (str ''/notes..txt''))
   \<and> \<not> has_dotdot_segment (unquote (str ''/notes..txt''))
   \<and> respond demo_env (str ''root'')
        (take 4096 (incoming (demo_sock (''GET /notes..txt HTTP/1.1'' @ CRLF @ CRLF))))
       = Inr (Some (forbidden_response demo_env))
   \<and> status_line (forbidden_response demo_env) = str ''HTTP/1.1 403 Forbidden''"
proof -
  have h: "request_words (utf8_decode Ignore
       (take 4096 (incoming (demo_sock (''GET /notes..txt HTTP/1.1'' @ CRLF @ CRLF)))))
     = [str ''GET'', str ''/notes..txt'', str ''HTTP/1.1'']"
    by (simp add: request_simps text_simps)
  have a: "sublist (str ''..'') (unquote (str ''/notes..txt''))"
    by (simp add: url_simps text_simps sublist_Cons_right)
  from dotdot_substring_forbidden[OF h a, of demo_env "str ''root''"]
  show ?thesis by simp
qed

section \<open>Classification: helper facts\<close>

lemma utf8_encode_ascii:
  assumes "\<forall>c\<in>set s. of_char c < (128::nat)"
  shows "utf8_encode (str s) = Some s"
proof -
  have "concat (map utf8_enc1 (str s)) = s"
    using assms by (induction s) (simp_all add: str_def utf8_enc1_def)
  then show ?thesis by (simp add: utf8_encode_Some)
qed

lemma send_404_ascii:
  assumes "\<forall>c\<in>set msg. of_char c < (128::nat)"
  shows "send_404 e (str msg)
         = Inr (send_response e 404 (str ''Not Found'') (str ''text/html; charset=utf-8'')
                  (''<html><body><h1>404 Not Found</h1><p>'' @ msg @ ''</p></body></html>''))"
proof -
  have "\<forall>c\<in>set (''<html><body><h1>404 Not Found</h1><p>'' @ msg @ ''</p></body></html>'').
          of_char c < (128::nat)"
    using assms by auto
  then have enc: "utf8_encode (str (''<html><body><h1>404 Not Found</h1><p>'' @ msg @ ''</p></body></html>''))
               = Some (''<html><body><h1>404 Not Found</h1><p>'' @ msg @ ''</p></body></html>'')"
    by (rule utf8_encode_ascii)
  have eq: "str ''<html><body><h1>404 Not Found</h1><p>'' @ str msg @ str ''</p></body></html>''
            = str (''<html><body><h1>404 Not Found</h1><p>'' @ msg @ ''</p></body></html>'')"
    by (simp only: str_append)
  show ?thesis
    by (simp only: send_404_def eq enc option.case)
qed

lemma serve_file_unsupported:
  "classify e p = None \<Longrightarrow> serve_file e p = Inr (unsupported_response e)"
  by (simp add: serve_file_def unsupported_response_def send_404_ascii)

lemma map_of_SUPPORTED_MIMES:
  "map_of SUPPORTED_MIMES x =
     (if x = str ''.html'' then Some (str ''text/html'')
      else if x = str ''.png'' then Some (str ''image/png'')
      else if x = str ''.pdf'' then Some (str ''application/pdf'')
      else None)"
  by (simp add: SUPPORTED_MIMES_def str_def)

lemma values_SUPPORTED_MIMES:
  "snd ` set SUPPORTED_MIMES = {str ''text/html'', str ''image/png'', str ''application/pdf''}"
  by (simp add: SUPPORTED_MIMES_def)

lemma respond_plain_file:
  assumes words: "request_words (utf8_decode Ignore data) = [str ''GET'', wire_path, version]"
      and nodots: "\<not> sublist (str ''..'') (unquote wire_path)"
      and noslash: "\<not> suffix (str ''/'') (unquote wire_path)"
      and isfile: "fs e (path_join doc_root (lstrip_slash (unquote wire_path))) = Some (File content)"
  shows "respond e doc_root data
         = map_sum id Some (serve_file e (path_join doc_root (lstrip_slash (unquote wire_path))))"
proof -
  have ne: "utf8_decode Ignore data \<noteq> []"
    using words request_words_Nil by auto
  have p: "parse_request_line (utf8_decode Ignore data) = Some (str ''GET'', unquote wire_path)"
    using words by (simp add: parse_request_line_def)
  have ex: "path_exists e (path_join doc_root (lstrip_slash (unquote wire_path)))"
    using isfile by (simp add: path_exists_def)
  have nd: "\<not> isdir e (path_join doc_root (lstrip_slash (unquote wire_path)))"
    using isfile by (simp add: isdir_def)
  from ne p nodots noslash ex nd show ?thesis
    by (simp add: respond_def Let_def)
qed

section \<open>Claims about the content classifier\<close>

text \<open>
  C2 as stated fails for extensions outside the table: line 109 falls back to
  \<^verbatim>\<open>mimetypes.guess_type\<close>, and a guess that is one of the three allowed types is served.
  With a table that maps \<^verbatim>\<open>.htm\<close> to \<^verbatim>\<open>text/html\<close>, as Python's own does,
  \<^verbatim>\<open>page.htm\<close> is classified \<^verbatim>\<open>text/html\<close> and answered with 200.
\<close>

theorem classify_htm_counterexample:
  "lower (snd (splitext (str ''root/page.htm''))) = str ''.htm''
   \<and> str ''.htm'' \<notin> {str ''.html'', str ''.png'', str ''.pdf''}
   \<and> classify demo_env (str ''root/page.htm'') = Some (str ''text/html'')
   \<and> respond demo_env (str ''root'') (''GET /page.htm HTTP/1.1'' @ CRLF @ CRLF)
       = Inr (Some (send_response demo_env 200 (str ''OK'') (str ''text/html'') ''<p>htm</p>''))"
proof -
  have ext: "lower (snd (splitext (str ''root/page.htm''))) = str ''.htm''"
    by (simp add: splitext_def rfind_def text_simps)
  have notin: "str ''.htm'' \<notin> {str ''.html'', str ''.png'', str ''.pdf''}"
    by (simp add: str_def)
  have cl: "classify demo_env (str ''root/page.htm'') = Some (str ''text/html'')"
    using ext notin
    by (simp add: classify_def mime_type_of_def map_of_SUPPORTED_MIMES values_SUPPORTED_MIMES
        demo_env_def demo_guess_type_def)
  have words: "request_words (utf8_decode Ignore (''GET /page.htm HTTP/1.1'' @ CRLF @ CRLF))
         = [str ''GET'', str ''/page.htm'', str ''HTTP/1.1'']"
    by (simp add: request_simps text_simps)
  have u: "unquote (str ''/page.htm'') = str ''/page.htm''"
    by (simp add: unquote_def str_def)
  have lp: "path_join (str ''root'') (lstrip_slash (str ''/page.htm'')) = str ''root/page.htm''"
    by (simp add: path_join_def suffix_to_prefix text_simps)
  have "respond demo_env (str ''root'') (''GET /page.htm HTTP/1.1'' @ CRLF @ CRLF)
        = map_sum id Some (serve_file demo_env (path_join (str ''root'')
             (lstrip_slash (unquote (str ''/page.htm'')))))"
  proof (rule respond_plain_file[OF words])
    show "\<not> sublist (str ''..'') (unquote (str ''/page.htm''))"
      by (simp add: u) (simp add: str_def sublist_Cons_right)
    show "\<not> suffix (str ''/'') (unquote (str ''/page.htm''))"
      by (simp add: u) (simp add: str_def suffix_to_prefix)
    show "fs demo_env (path_join (str ''root'') (lstrip_slash (unquote (str ''/page.htm''))))
          = Some (File (Some ''<p>htm</p>''))"
      by (simp add: u lp) (simp add: demo_env_def demo_fs_def str_def)
  qed
  moreover have "serve_file demo_env (str ''root/page.htm'')
      = Inr (send_response demo_env 200 (str ''OK'') (str ''text/html'') ''<p>htm</p>'')"
    using cl by (simp add: serve_file_def read_file_def) (simp add: demo_env_def demo_fs_def str_def)
  ultimately have "respond demo_env (str ''root'') (''GET /page.htm HTTP/1.1'' @ CRLF @ CRLF)
       = Inr (Some (send_response demo_env 200 (str ''OK'') (str ''text/html'') ''<p>htm</p>''))"
    by (simp add: u lp)
  with ext notin cl show ?thesis by simp
qed


lemma show_int_404: "show_int 404 = str ''404''"
  by (simp add: show_int_def show_nat.simps str_def)

lemma unsupported_response_status:
  "status_line (unsupported_response e) = str ''HTTP/1.1 404 Not Found''"
  by (simp add: unsupported_response_def send_response_def status_line_def show_int_404 str_def)

text \<open>
  C2, as amended.  For the lower-cased extensions \<^verbatim>\<open>.html\<close>, \<^verbatim>\<open>.png\<close> and
  \<^verbatim>\<open>.pdf\<close> the classifier returns the type of the table.  For every other extension it
  returns the guess of \<^verbatim>\<open>mimetypes.guess_type\<close> when that guess is one of the three types
  of the table, and \<open>None\<close> otherwise.  \<open>None\<close> is answered with the 404 response
  "Unsupported file type or extension.", also by the handler for a GET of an existing
  regular file.
\<close>

theorem classify_by_extension_or_guess:
  "(lower (snd (splitext p)) = str ''.html'' \<longrightarrow> classify e p = Some (str ''text/html''))
   \<and> (lower (snd (splitext p)) = str ''.png'' \<longrightarrow> classify e p = Some (str ''image/png''))
   \<and> (lower (snd (splitext p)) = str ''.pdf'' \<longrightarrow> classify e p = Some (str ''application/pdf''))
   \<and> (lower (snd (splitext p)) \<notin> {str ''.html'', str ''.png'', str ''.pdf''} \<longrightarrow>
        classify e p
          = (case guess_type e p of
               None \<Rightarrow> None
             | Some m \<Rightarrow>
                 if m \<in> {str ''text/html'', str ''image/png'', str ''application/pdf''}
                 then Some m else None))
   \<and> (classify e p = None \<longrightarrow>
        serve_file e p = Inr (unsupported_response e)
        \<and> status_line (unsupported_response e) = str ''HTTP/1.1 404 Not Found'')
   \<and> (request_words (utf8_decode Ignore data) = [str ''GET'', wire_path, version]
        \<and> \<not> sublist (str ''..'') (unquote wire_path)
        \<and> \<not> suffix (str ''/'') (unquote wire_path)
        \<and> p = path_join doc_root (lstrip_slash (unquote wire_path))
        \<and> fs e p = Some (File content)
        \<and> classify e p = None \<longrightarrow>
        respond e doc_root data = Inr (Some (unsupported_response e)))"
proof -
  have a: "lower (snd (splitext p)) = str ''.html'' \<longrightarrow> classify e p = Some (str ''text/html'')"
    by (simp add: classify_def mime_type_of_def map_of_SUPPORTED_MIMES values_SUPPORTED_MIMES)
  have b: "lower (snd (splitext p)) = str ''.png'' \<longrightarrow> classify e p = Some (str ''image/png'')"
    by (simp add: classify_def mime_type_of_def map_of_SUPPORTED_MIMES values_SUPPORTED_MIMES
        str_def)
  have c: "lower (snd (splitext p)) = str ''.pdf'' \<longrightarrow> classify e p = Some (str ''application/pdf'')"
    by (simp add: classify_def mime_type_of_def map_of_SUPPORTED_MIMES values_SUPPORTED_MIMES
        str_def)
  have d: "lower (snd (splitext p)) \<notin> {str ''.html'', str ''.png'', str ''.pdf''} \<longrightarrow>
        classify e p
          = (case guess_type e p of
               None \<Rightarrow> None
             | Some m \<Rightarrow>
                 if m \<in> {str ''text/html'', str ''image/png'', str ''application/pdf''}
                 then Some m else None)"
    by (simp add: classify_def mime_type_of_def map_of_SUPPORTED_MIMES values_SUPPORTED_MIMES
        split: option.splits)
  have f: "classify e p = None \<longrightarrow>
        serve_file e p = Inr (unsupported_response e)
        \<and> status_line (unsupported_response e) = str ''HTTP/1.1 404 Not Found''"
    by (simp add: serve_file_unsupported unsupported_response_status)
  have g: "request_words (utf8_decode Ignore data) = [str ''GET'', wire_path, version]
        \<and> \<not> sublist (str ''..'') (unquote wire_path)
        \<and> \<not> suffix (str ''/'') (unquote wire_path)
        \<and> p = path_join doc_root (lstrip_slash (unquote wire_path))
        \<and> fs e p = Some (File content)
        \<and> classify e p = None \<longrightarrow>
        respond e doc_root data = Inr (Some (unsupported_response e))"
  proof
    assume h: "request_words (utf8_decode Ignore data) = [str ''GET'', wire_path, version]
        \<and> \<not> sublist (str ''..'') (unquote wire_path)
        \<and> \<not> suffix (str ''/'') (unquote wire_path)
        \<and> p = path_join doc_root (lstrip_slash (unquote wire_path))
        \<and> fs e p = Some (File content)
        \<and> classify e p = None"
    then have "respond e doc_root data = map_sum id Some (serve_file e p)"
      using respond_plain_file[of data wire_path version e doc_root content] by blast
    moreover have "serve_file e p = Inr (unsupported_response e)"
      using h serve_file_unsupported by blast
    ultimately show "respond e doc_root data = Inr (Some (unsupported_response e))"
      by simp
  qed
  from a b c d f g show ?thesis by blast
qed

theorem classify_by_extension_or_guess_witness:
  "lower (snd (splitext (str ''root/A b.html''))) = str ''.html''
   \<and> classify demo_env (str ''root/A b.html'') = Some (str ''text/html'')
   \<and> lower (snd (splitext (str ''root/sub/z''))) \<notin> {str ''.html'', str ''.png'', str ''.pdf''}
   \<and> classify demo_env (str ''root/sub/z'') = None
   \<and> respond demo_env (str ''root'') (''GET /sub/z HTTP/1.1'' @ CRLF @ CRLF)
       = Inr (Some (unsupported_response demo_env))
   \<and> status_line (unsupported_response demo_env) = str ''HTTP/1.1 404 Not Found''"
proof -
  have e1: "lower (snd (splitext (str ''root/A b.html''))) = str ''.html''"
    by (simp add: splitext_def rfind_def text_simps)
  have e2: "lower (snd (splitext (str ''root/sub/z''))) \<notin> {str ''.html'', str ''.png'', str ''.pdf''}"
    by (simp add: splitext_def rfind_def text_simps)
  have g: "guess_type demo_env (str ''root/sub/z'') = None"
    by (simp add: demo_env_def demo_guess_type_def splitext_def rfind_def text_simps)
  have words: "request_words (utf8_decode Ignore (''GET /sub/z HTTP/1.1'' @ CRLF @ CRLF))
         = [str ''GET'', str ''/sub/z'', str ''HTTP/1.1'']"
    by (simp add: request_simps text_simps)
  have u: "unquote (str ''/sub/z'') = str ''/sub/z''"
    by (simp add: unquote_def str_def)
  have lp: "str ''root/sub/z'' = path_join (str ''root'') (lstrip_slash (unquote (str ''/sub/z'')))"
    by (simp add: u) (simp add: path_join_def suffix_to_prefix text_simps)
  have nd: "\<not> sublist (str ''..'') (unquote (str ''/sub/z''))"
    by (simp add: u) (simp add: str_def sublist_Cons_right)
  have ns: "\<not> suffix (str ''/'') (unquote (str ''/sub/z''))"
    by (simp add: u) (simp add: str_def suffix_to_prefix)
  have f: "fs demo_env (str ''root/sub/z'') = Some (File (Some ''zz''))"
    by (simp add: demo_env_def demo_fs_def str_def)
  from classify_by_extension_or_guess[of "str ''root/A b.html''" demo_env] e1
  have c1: "classify demo_env (str ''root/A b.html'') = Some (str ''text/html'')" by blast
  from classify_by_extension_or_guess[of "str ''root/sub/z''" demo_env
      "''GET /sub/z HTTP/1.1'' @ CRLF @ CRLF" "str ''/sub/z''" "str ''HTTP/1.1''" "str ''root''"
      "Some ''zz''"] e2 g words lp nd ns f
  have c2: "classify demo_env (str ''root/sub/z'') = None
     \<and> respond demo_env (str ''root'') (''GET /sub/z HTTP/1.1'' @ CRLF @ CRLF)
       = Inr (Some (unsupported_response demo_env))
     \<and> status_line (unsupported_response demo_env) = str ''HTTP/1.1 404 Not Found''"
    by simp
  from e1 c1 e2 c2 show ?thesis by blast
qed

section \<open>The decoded request holds no surrogate\<close>

lemma encodable_on_error: "c \<in> set (on_error h) \<Longrightarrow> encodable c"
  by (cases h) (simp_all add: on_error_def encodable_def)

lemma encodable_two_bytes:
  assumes "ch < 0xE0" and "is_cont ch2"
  shows "encodable ((ch - 0xC0) * 64 + (ch2 - 0x80))"
proof -
  have "ch - 0xC0 < 32" using assms(1) by linarith
  moreover have "ch2 - 0x80 < 64" using assms(2) unfolding is_cont_def by linarith
  ultimately have "(ch - 0xC0) * 64 + (ch2 - 0x80) < 0xD800" by linarith
  then show ?thesis by (simp add: encodable_def)
qed

lemma encodable_three_bytes:
  assumes "0xE0 \<le> ch" and "ch < 0xF0" and "is_cont ch2" and "is_cont ch3"
      and "\<not> (if ch2 < 0xA0 then ch = 0xE0 else ch = 0xED)"
  shows "encodable ((ch - 0xE0) * 4096 + (ch2 - 0x80) * 64 + (ch3 - 0x80))"
proof -
  obtain a where a: "ch = 0xE0 + a" using assms(1) le_iff_add by blast
  obtain b where b: "ch2 = 0x80 + b" using assms(3) le_iff_add unfolding is_cont_def by blast
  obtain c where c: "ch3 = 0x80 + c" using assms(4) le_iff_add unfolding is_cont_def by blast
  have ba: "a < 16" using assms(2) a by linarith
  have bb: "b < 64" using assms(3) b unfolding is_cont_def by linarith
  have bc: "c < 64" using assms(4) c unfolding is_cont_def by linarith
  have sur: "a = 13 \<longrightarrow> b < 32" using assms(5) a b by (auto split: if_splits)
  have "a * 4096 + b * 64 + c < 0xD800 \<or> (0xE000 \<le> a * 4096 + b * 64 + c \<and> a * 4096 + b * 64 + c < 0x110000)"
  proof -
    consider "a \<le> 12" | "a = 13" | "14 \<le> a" by linarith
    then show ?thesis
    proof cases
      case 1 then show ?thesis using bb bc by linarith
    next
      case 2 then show ?thesis using sur bc by simp
    next
      case 3 then show ?thesis using ba bb bc by linarith
    qed
  qed
  then show ?thesis by (simp add: encodable_def a b c)
qed

lemma encodable_four_bytes:
  assumes "0xF0 \<le> ch" and "ch < 0xF5" and "is_cont ch2" and "is_cont ch3" and "is_cont ch4"
      and "\<not> (if ch2 < 0x90 then ch = 0xF0 else ch = 0xF4)"
  shows "encodable ((ch - 0xF0) * 262144 + (ch2 - 0x80) * 4096 + (ch3 - 0x80) * 64 + (ch4 - 0x80))"
proof -
  obtain a where a: "ch = 0xF0 + a" using assms(1) le_iff_add by blast
  obtain b where b: "ch2 = 0x80 + b" using assms(3) le_iff_add unfolding is_cont_def by blast
  obtain c where c: "ch3 = 0x80 + c" using assms(4) le_iff_add unfolding is_cont_def by blast
  obtain d where d: "ch4 = 0x80 + d" using assms(5) le_iff_add unfolding is_cont_def by blast
  have ba: "a < 5" using assms(2) a by linarith
  have bb: "b < 64" using assms(3) b unfolding is_cont_def by linarith
  have bc: "c < 64" using assms(4) c unfolding is_cont_def by linarith
  have bd: "d < 64" using assms(5) d unfolding is_cont_def by linarith
  have lo: "a = 0 \<longrightarrow> 16 \<le> b" using assms(6) a b by (auto split: if_splits)
  have hi: "a = 4 \<longrightarrow> b < 16" using assms(6) a b by (auto split: if_splits)
  have "0xE000 \<le> a * 262144 + b * 4096 + c * 64 + d \<and> a * 262144 + b * 4096 + c * 64 + d < 0x110000"
  proof -
    consider "a = 0" | "1 \<le> a \<and> a \<le> 3" | "a = 4" using ba by linarith
    then show ?thesis
    proof cases
      case 1 then show ?thesis using lo bb bc bd by simp
    next
      case 2 then show ?thesis using bb bc bd by linarith
    next
      case 3 then show ?thesis using hi bc bd by simp
    qed
  qed
  then show ?thesis by (simp add: encodable_def a b c d)
qed


lemma encodable_ascii: "(c::nat) < 0x80 \<Longrightarrow> encodable c"
  by (simp add: encodable_def)

lemma encodable_utf8_decode: "\<forall>c\<in>set (utf8_decode h bs). encodable c"
proof (induction bs rule: length_induct)
  case (1 bs)
  then have IH: "\<And>ys. length ys < length bs \<Longrightarrow> \<forall>c\<in>set (utf8_decode h ys). encodable c"
    by blast
  have err: "\<forall>c\<in>set (on_error h). encodable c"
    using encodable_on_error by blast
  show ?case
  proof (cases bs)
    case Nil
    then show ?thesis by simp
  next
    case (Cons b r1)
    have IH1: "\<forall>c\<in>set (utf8_decode h r1). encodable c" using IH[of r1] Cons by simp
    consider (ascii) "(of_char b :: nat) < 0x80"
      | (bad) "0x80 \<le> (of_char b :: nat)" "(of_char b :: nat) < 0xC2"
      | (two) "0xC2 \<le> (of_char b :: nat)" "(of_char b :: nat) < 0xE0"
      | (three) "0xE0 \<le> (of_char b :: nat)" "(of_char b :: nat) < 0xF0"
      | (four) "0xF0 \<le> (of_char b :: nat)" "(of_char b :: nat) < 0xF5"
      | (high) "0xF5 \<le> (of_char b :: nat)"
      by linarith
    then show ?thesis
    proof cases
      case ascii
      then show ?thesis using IH1 Cons by (auto simp: Let_def encodable_ascii)
    next
      case bad
      then show ?thesis using IH1 err Cons by (auto simp: Let_def)
    next
      case high
      then show ?thesis using IH1 err Cons by (auto simp: Let_def)
    next
      case two
      show ?thesis
      proof (cases r1)
        case Nil
        with two err Cons show ?thesis by (auto simp: Let_def)
      next
        case r1: (Cons b2 r2)
        have IH2: "\<forall>c\<in>set (utf8_decode h r2). encodable c" using IH[of r2] Cons r1 by simp
        show ?thesis
        proof (cases "is_cont (of_char b2)")
          case True
          with two have "encodable ((of_char b - 0xC0) * 64 + (of_char b2 - 0x80))"
            by (simp add: encodable_two_bytes)
          with two True IH2 Cons r1 show ?thesis by (auto simp: Let_def)
        next
          case False
          with two IH1 err Cons r1 show ?thesis by (auto simp: Let_def)
        qed
      qed
    next
      case three
      show ?thesis
      proof (cases r1)
        case Nil
        with three err Cons show ?thesis by (auto simp: Let_def)
      next
        case r1: (Cons b2 r2)
        have IH2: "\<forall>c\<in>set (utf8_decode h r2). encodable c" using IH[of r2] Cons r1 by simp
        show ?thesis
        proof (cases "\<not> is_cont (of_char b2)
                      \<or> (if (of_char b2 :: nat) < 0xA0 then (of_char b :: nat) = 0xE0
                          else (of_char b :: nat) = 0xED)")
          case True
          with three IH1 err Cons r1 show ?thesis by (auto simp: Let_def)
        next
          case ok2: False
          show ?thesis
          proof (cases r2)
            case Nil
            with three ok2 err Cons r1 show ?thesis by (auto simp: Let_def)
          next
            case r2: (Cons b3 r3)
            have IH3: "\<forall>c\<in>set (utf8_decode h r3). encodable c" using IH[of r3] Cons r1 r2 by simp
            show ?thesis
            proof (cases "is_cont (of_char b3)")
              case True
              with three ok2
              have "encodable ((of_char b - 0xE0) * 4096 + (of_char b2 - 0x80) * 64
                      + (of_char b3 - 0x80))"
                by (intro encodable_three_bytes) auto
              with three ok2 True IH3 Cons r1 r2 show ?thesis by (auto simp: Let_def)
            next
              case False
              with three ok2 IH2 err Cons r1 r2 show ?thesis by (auto simp: Let_def)
            qed
          qed
        qed
      qed
    next
      case four
      show ?thesis
      proof (cases r1)
        case Nil
        with four err Cons show ?thesis by (auto simp: Let_def)
      next
        case r1: (Cons b2 r2)
        have IH2: "\<forall>c\<in>set (utf8_decode h r2). encodable c" using IH[of r2] Cons r1 by simp
        show ?thesis
        proof (cases "\<not> is_cont (of_char b2)
                      \<or> (if (of_char b2 :: nat) < 0x90 then (of_char b :: nat) = 0xF0
                          else (of_char b :: nat) = 0xF4)")
          case True
          with four IH1 err Cons r1 show ?thesis by (auto simp: Let_def)
        next
          case ok2: False
          show ?thesis
          proof (cases r2)
            case Nil
            with four ok2 err Cons r1 show ?thesis by (auto simp: Let_def)
          next
            case r2: (Cons b3 r3)
            have IH3: "\<forall>c\<in>set (utf8_decode h r3). encodable c" using IH[of r3] Cons r1 r2 by simp
            show ?thesis
            proof (cases "is_cont (of_char b3)")
              case False
              with four ok2 IH2 err Cons r1 r2 show ?thesis by (auto simp: Let_def)
            next
              case ok3: True
              show ?thesis
              proof (cases r3)
                case Nil
                with four ok2 ok3 err Cons r1 r2 show ?thesis by (auto simp: Let_def)
              next
                case r3: (Cons b4 r4)
                have IH4: "\<forall>c\<in>set (utf8_decode h r4). encodable c"
                  using IH[of r4] Cons r1 r2 r3 by simp
                show ?thesis
                proof (cases "is_cont (of_char b4)")
                  case True
                  with four ok2 ok3
                  have "encodable ((of_char b - 0xF0) * 262144 + (of_char b2 - 0x80) * 4096
                          + (of_char b3 - 0x80) * 64 + (of_char b4 - 0x80))"
                    by (intro encodable_four_bytes) auto
                  with four ok2 ok3 True IH4 Cons r1 r2 r3 show ?thesis by (auto simp: Let_def)
                next
                  case False
                  with four ok2 ok3 IH3 err Cons r1 r2 r3 show ?thesis by (auto simp: Let_def)
                qed
              qed
            qed
          qed
        qed
      qed
    qed
  qed
qed


lemma split_ws_go_subset:
  "w \<in> set (split_ws_go cur s) \<Longrightarrow> set w \<subseteq> set cur \<union> set s"
proof (induction s arbitrary: cur)
  case Nil
  then show ?case by (auto split: if_splits)
next
  case (Cons c cs)
  show ?case
  proof (cases "isspace c")
    case True
    with Cons.prems have "w = cur \<or> w \<in> set (split_ws_go [] cs)"
      by (auto split: if_splits)
    then show ?thesis using Cons.IH[of "[]"] by auto
  next
    case False
    with Cons.prems have "w \<in> set (split_ws_go (cur @ [c]) cs)" by simp
    then show ?thesis using Cons.IH[of "cur @ [c]"] by auto
  qed
qed

lemma strip_subset: "set (strip s) \<subseteq> set s"
proof -
  have "set (strip s) \<subseteq> set (rev (dropWhile isspace s))"
    unfolding strip_def by (metis set_dropWhileD set_rev subsetI)
  also have "\<dots> \<subseteq> set s" by (auto dest: set_dropWhileD)
  finally show ?thesis .
qed

lemma first_piece_subset: "set (first_piece sep s) \<subseteq> set s"
proof (cases "split_sep sep s")
  case Nil
  then show ?thesis by (simp add: first_piece_def)
next
  case (Cons p ps)
  then have "p \<in> set (split_go sep [] s)" by (simp add: split_sep_def)
  then have "sublist p s" using split_go_pieces_sublist[of p sep "[]" s] by simp
  then have "set p \<subseteq> set s" by (rule set_mono_sublist)
  with Cons show ?thesis by (simp add: first_piece_def)
qed

lemma request_words_subset:
  assumes "w \<in> set (request_words r)" shows "set w \<subseteq> set r"
proof -
  have "set w \<subseteq> set (strip (first_piece [10] r))"
    using assms split_ws_go_subset[of w "[]"] by (simp add: request_words_def split_ws_def)
  also have "\<dots> \<subseteq> set (first_piece [10] r)" by (rule strip_subset)
  also have "\<dots> \<subseteq> set r" by (rule first_piece_subset)
  finally show ?thesis .
qed

lemma encodable_unquote_parts:
  "\<forall>c\<in>set s. encodable c \<Longrightarrow> \<forall>c\<in>set (unquote_parts run s). encodable c"
proof (induction s arbitrary: run)
  case Nil
  then show ?case using encodable_utf8_decode by (simp add: unquote_run_def)
next
  case (Cons c cs)
  have run_ok: "\<forall>x\<in>set (unquote_run run). encodable x"
    using encodable_utf8_decode by (simp add: unquote_run_def)
  from Cons show ?case using run_ok by (cases "c < 128") auto
qed

lemma encodable_unquote:
  "\<forall>c\<in>set s. encodable c \<Longrightarrow> \<forall>c\<in>set (unquote s). encodable c"
  using encodable_unquote_parts[of s "[]"] by (simp add: unquote_def)

lemma url_path_encodable:
  assumes "request_words (utf8_decode Ignore data) = [meth, wire_path, version]"
  shows "list_all encodable (unquote wire_path)"
proof -
  have "wire_path \<in> set (request_words (utf8_decode Ignore data))" using assms by simp
  then have "set wire_path \<subseteq> set (utf8_decode Ignore data)" by (rule request_words_subset)
  then have "\<forall>c\<in>set wire_path. encodable c" using encodable_utf8_decode by blast
  then show ?thesis using encodable_unquote by (simp add: list_all_iff)
qed

lemma encode_redirect_response:
  assumes "list_all encodable url_path"
  shows "encode_response (redirect_response e url_path)
         = Some (concat (map utf8_enc1
                   (join_with (str CRLF) (resp_headers (redirect_response e url_path))))
                 @ CRLFCRLF)"
  using assms by (simp add: encode_response_def redirect_response_def utf8_encode_Some Let_def)

lemma respond_redirect:
  assumes words: "request_words (utf8_decode Ignore data) = [str ''GET'', wire_path, version]"
      and nodots: "\<not> sublist (str ''..'') (unquote wire_path)"
      and noslash: "\<not> suffix (str ''/'') (unquote wire_path)"
      and isdir: "fs e (path_join doc_root (lstrip_slash (unquote wire_path))) = Some (Dir names)"
  shows "respond e doc_root data = Inr (Some (redirect_response e (unquote wire_path)))"
proof -
  have ne: "utf8_decode Ignore data \<noteq> []"
    using words request_words_Nil by auto
  have p: "parse_request_line (utf8_decode Ignore data) = Some (str ''GET'', unquote wire_path)"
    using words by (simp add: parse_request_line_def)
  have ex: "path_exists e (path_join doc_root (lstrip_slash (unquote wire_path)))"
    using isdir by (simp add: path_exists_def)
  have d: "isdir e (path_join doc_root (lstrip_slash (unquote wire_path)))"
    using isdir by (simp add: isdir_def)
  from ne p nodots noslash ex d show ?thesis
    by (simp add: respond_def Let_def)
qed

section \<open>The bytes on the wire: helper facts\<close>

lemma utf8_encode_bytes: "list_all encodable s \<Longrightarrow> utf8_encode s = Some (utf8_bytes s)"
  by (simp add: utf8_encode_def utf8_bytes_def)

lemma utf8_bytes_append [simp]: "utf8_bytes (a @ b) = utf8_bytes a @ utf8_bytes b"
  by (simp add: utf8_bytes_def)

lemma utf8_bytes_Nil [simp]: "utf8_bytes [] = []"
  by (simp add: utf8_bytes_def)

lemma utf8_bytes_ascii:
  "\<forall>c\<in>set s. of_char c < (128::nat) \<Longrightarrow> utf8_bytes (str s) = s"
  by (induction s) (simp_all add: utf8_bytes_def str_def utf8_enc1_def)

lemma of_char_char_of_small: "n < 256 \<Longrightarrow> (of_char (char_of (n::nat)) :: nat) = n"
  by simp

lemma utf8_enc1_bytes:
  assumes "encodable c" and "b \<in> set (utf8_enc1 c)"
  shows "(c < 128 \<and> (of_char b :: nat) = c) \<or> (128 \<le> c \<and> 128 \<le> (of_char b :: nat))"
proof -
  consider (a) "c < 0x80" | (b) "0x80 \<le> c" "c < 0x800" | (c) "0x800 \<le> c" "c < 0x10000"
    | (d) "0x10000 \<le> c" "c < 0x110000"
    using assms(1) unfolding encodable_def by linarith
  then show ?thesis
  proof cases
    case a
    with assms(2) show ?thesis by (simp add: utf8_enc1_def)
  next
    case b
    have d: "c div 64 < 32" using b by simp
    have m: "c mod 64 < 64" by simp
    from b assms(2) have "b = char_of (0xC0 + c div 64) \<or> b = char_of (0x80 + c mod 64)"
      by (simp add: utf8_enc1_def)
    then show ?thesis
    proof
      assume "b = char_of (0xC0 + c div 64)"
      moreover have "0xC0 + c div 64 < 256" using d by linarith
      ultimately have "(of_char b :: nat) = 0xC0 + c div 64" by simp
      with b show ?thesis by simp
    next
      assume "b = char_of (0x80 + c mod 64)"
      moreover have "0x80 + c mod 64 < 256" using m by linarith
      ultimately have "(of_char b :: nat) = 0x80 + c mod 64" by simp
      with b show ?thesis by simp
    qed
  next
    case c
    have d: "c div 4096 < 16" using c by simp
    have m1: "(c div 64) mod 64 < 64" by simp
    have m: "c mod 64 < 64" by simp
    from c assms(2) have "b = char_of (0xE0 + c div 4096) \<or> b = char_of (0x80 + (c div 64) mod 64)
        \<or> b = char_of (0x80 + c mod 64)"
      by (simp add: utf8_enc1_def)
    then consider "b = char_of (0xE0 + c div 4096)" | "b = char_of (0x80 + (c div 64) mod 64)"
      | "b = char_of (0x80 + c mod 64)" by blast
    then show ?thesis
    proof cases
      case 1
      moreover have "0xE0 + c div 4096 < 256" using d by linarith
      ultimately have "(of_char b :: nat) = 0xE0 + c div 4096" by simp
      with c show ?thesis by simp
    next
      case 2
      moreover have "0x80 + (c div 64) mod 64 < 256" using m1 by linarith
      ultimately have "(of_char b :: nat) = 0x80 + (c div 64) mod 64" by simp
      with c show ?thesis by simp
    next
      case 3
      moreover have "0x80 + c mod 64 < 256" using m by linarith
      ultimately have "(of_char b :: nat) = 0x80 + c mod 64" by simp
      with c show ?thesis by simp
    qed
  next
    case d
    have dd: "c div 262144 < 5" using d by simp
    have m2: "(c div 4096) mod 64 < 64" by simp
    have m1: "(c div 64) mod 64 < 64" by simp
    have m: "c mod 64 < 64" by simp
    from d assms(2) have "b = char_of (0xF0 + c div 262144)
        \<or> b = char_of (0x80 + (c div 4096) mod 64)
        \<or> b = char_of (0x80 + (c div 64) mod 64)
        \<or> b = char_of (0x80 + c mod 64)"
      by (simp add: utf8_enc1_def)
    then consider "b = char_of (0xF0 + c div 262144)" | "b = char_of (0x80 + (c div 4096) mod 64)"
      | "b = char_of (0x80 + (c div 64) mod 64)" | "b = char_of (0x80 + c mod 64)" by blast
    then show ?thesis
    proof cases
      case 1
      moreover have "0xF0 + c div 262144 < 256" using dd by linarith
      ultimately have "(of_char b :: nat) = 0xF0 + c div 262144" by simp
      with d show ?thesis by simp
    next
      case 2
      moreover have "0x80 + (c div 4096) mod 64 < 256" using m2 by linarith
      ultimately have "(of_char b :: nat) = 0x80 + (c div 4096) mod 64" by simp
      with d show ?thesis by simp
    next
      case 3
      moreover have "0x80 + (c div 64) mod 64 < 256" using m1 by linarith
      ultimately have "(of_char b :: nat) = 0x80 + (c div 64) mod 64" by simp
      with d show ?thesis by simp
    next
      case 4
      moreover have "0x80 + c mod 64 < 256" using m by linarith
      ultimately have "(of_char b :: nat) = 0x80 + c mod 64" by simp
      with d show ?thesis by simp
    qed
  qed
qed

lemma wire_text_chars:
  assumes "list_all encodable s" and "x \<in> set (wire_text s)"
  shows "(x < 128 \<and> x \<in> set s) \<or> 128 \<le> x"
proof -
  from assms(2) obtain b where b: "b \<in> set (utf8_bytes s)" "x = of_char b"
    by (auto simp: wire_text_def latin1_decode_def)
  then obtain c where c: "c \<in> set s" "b \<in> set (utf8_enc1 c)"
    by (auto simp: utf8_bytes_def)
  with assms(1) have "encodable c" by (simp add: list_all_iff)
  from utf8_enc1_bytes[OF this c(2)] b(2) c(1) show ?thesis by auto
qed

lemma wire_text_append [simp]: "wire_text (a @ b) = wire_text a @ wire_text b"
  by (simp add: wire_text_def latin1_decode_def)

lemma wire_text_str_ascii:
  "\<forall>c\<in>set s. of_char c < (128::nat) \<Longrightarrow> wire_text (str s) = str s"
  by (simp add: wire_text_def utf8_bytes_ascii latin1_decode_def) (simp add: str_def)

lemma wire_text_ascii:
  "\<forall>c\<in>set s. c < 128 \<Longrightarrow> wire_text s = s"
  by (induction s) (simp_all add: wire_text_def utf8_bytes_def utf8_enc1_def latin1_decode_def)

lemma find_skip_block:
  "CHR 0x0D \<notin> set a \<Longrightarrow>
   find_from CRLFCRLF (a @ rest) k = find_from CRLFCRLF rest (k + length a)"
  by (induction a arbitrary: k) (auto simp: CRLFCRLF_def CRLF_def)

lemma find_skip_sep:
  "x \<noteq> CHR 0x0D \<Longrightarrow>
   find_from CRLFCRLF (CHR 0x0D # CHR 0x0A # x # rest) k
     = find_from CRLFCRLF (x # rest) (k + 2)"
  by (simp add: CRLFCRLF_def CRLF_def)

lemma find_at_delimiter: "find_from CRLFCRLF (CRLFCRLF @ body) k = int k"
  by (simp add: CRLFCRLF_def CRLF_def)

lemma find_header_end:
  assumes "\<forall>a\<in>set (a0 # as). CHR 0x0D \<notin> set a" and "\<forall>a\<in>set as. a \<noteq> []"
  shows "find_from CRLFCRLF (join_with CRLF (a0 # as) @ CRLFCRLF @ body) k
         = int (k + length (join_with CRLF (a0 # as)))"
  using assms
proof (induction as arbitrary: a0 k)
  case Nil
  then show ?case by (simp add: find_skip_block find_at_delimiter)
next
  case (Cons a1 as)
  from Cons.prems obtain x xs where a1: "a1 = x # xs" by (cases a1) auto
  with Cons.prems have x: "x \<noteq> CHR 0x0D" by auto
  have "find_from CRLFCRLF (join_with CRLF (a0 # a1 # as) @ CRLFCRLF @ body) k
        = find_from CRLFCRLF (CRLF @ join_with CRLF (a1 # as) @ CRLFCRLF @ body) (k + length a0)"
    using Cons.prems by (simp add: find_skip_block)
  also have "\<dots> = find_from CRLFCRLF (join_with CRLF (a1 # as) @ CRLFCRLF @ body)
                     (k + length a0 + 2)"
  proof -
    obtain t where t: "join_with CRLF (a1 # as) = x # t"
      using a1 by (cases as) auto
    show ?thesis using find_skip_sep[OF x] by (simp add: t) (simp add: CRLF_def)
  qed
  also have "\<dots> = int (k + length a0 + 2 + length (join_with CRLF (a1 # as)))"
    using Cons.IH[of a1 "k + length a0 + 2"] Cons.prems by simp
  finally show ?case by (simp add: CRLF_def)
qed

lemma split_skip_block:
  "13 \<notin> set l \<Longrightarrow>
   split_go [13, 10::nat] cur (l @ 13 # 10 # rest) = (cur @ l) # split_go [13, 10] [] rest"
  by (induction l arbitrary: cur) auto

lemma split_last_block:
  "13 \<notin> set l \<Longrightarrow> split_go [13, 10::nat] cur l = [cur @ l]"
  by (induction l arbitrary: cur) auto

lemma split_lines:
  assumes "\<forall>l\<in>set (l0 # ls). 13 \<notin> set l"
  shows "split_go [13, 10::nat] cur (join_with [13, 10] (l0 # ls)) = (cur @ l0) # ls"
  using assms
proof (induction ls arbitrary: l0 cur)
  case Nil
  then show ?case by (simp add: split_last_block)
next
  case (Cons l1 ls)
  have "split_go [13, 10] cur (join_with [13, 10] (l0 # l1 # ls))
        = (cur @ l0) # split_go [13, 10] [] (join_with [13, 10] (l1 # ls))"
    using Cons.prems by (simp add: split_skip_block)
  also have "split_go [13, 10] [] (join_with [13, 10] (l1 # ls)) = l1 # ls"
    using Cons.IH[of l1 "[]"] Cons.prems by simp
  finally show ?case .
qed

lemma utf8_bytes_join:
  "utf8_bytes (join_with (str CRLF) ls) = join_with CRLF (map utf8_bytes ls)"
proof (induction ls)
  case Nil
  show ?case by simp
next
  case (Cons p ps)
  have sep: "utf8_bytes (str CRLF) = CRLF"
    by (rule utf8_bytes_ascii) (simp add: CRLF_def)
  show ?case
  proof (cases ps)
    case Nil
    then show ?thesis by simp
  next
    case (Cons q qs)
    with Cons.IH sep show ?thesis by simp
  qed
qed

lemma latin1_decode_join:
  "latin1_decode (join_with CRLF bs) = join_with [13, 10] (map latin1_decode bs)"
proof (induction bs)
  case Nil
  show ?case by (simp add: latin1_decode_def)
next
  case (Cons p ps)
  have sep: "latin1_decode CRLF = [13, 10]" by (simp add: latin1_decode_def CRLF_def)
  show ?case
  proof (cases ps)
    case Nil
    then show ?thesis by simp
  next
    case (Cons q qs)
    with Cons.IH sep show ?thesis by (simp add: latin1_decode_def)
  qed
qed

lemma utf8_bytes_no_CR:
  assumes "list_all encodable l" and "13 \<notin> set l"
  shows "CHR 0x0D \<notin> set (utf8_bytes l)"
proof
  assume "CHR 0x0D \<in> set (utf8_bytes l)"
  then obtain c where c: "c \<in> set l" "CHR 0x0D \<in> set (utf8_enc1 c)"
    by (auto simp: utf8_bytes_def)
  with assms(1) have "encodable c" by (simp add: list_all_iff)
  from utf8_enc1_bytes[OF this c(2)] have "c = 13" by auto
  with c(1) assms(2) show False by simp
qed

lemma wire_text_no_CR:
  assumes "list_all encodable l" and "13 \<notin> set l"
  shows "13 \<notin> set (wire_text l)"
  using wire_text_chars[OF assms(1), of 13] assms(2) by auto

lemma utf8_bytes_not_Nil: "l \<noteq> [] \<Longrightarrow> utf8_bytes l \<noteq> []"
  by (cases l) (auto simp: utf8_bytes_def utf8_enc1_def)

lemma decode_encoded_response:
  assumes hs: "resp_headers r = l0 # ls"
      and ok: "\<forall>l\<in>set (l0 # ls). list_all encodable l \<and> 13 \<notin> set l"
      and ne: "\<forall>l\<in>set ls. l \<noteq> []"
  shows "encode_response r
           = Some (utf8_bytes (join_with (str CRLF) (l0 # ls)) @ CRLFCRLF @ resp_body r)
         \<and> decode_response (utf8_bytes (join_with (str CRLF) (l0 # ls)) @ CRLFCRLF @ resp_body r)
           = (map wire_text (l0 # ls), resp_body r)"
proof -
  let ?H = "utf8_bytes (join_with (str CRLF) (l0 # ls))"
  have sep_ok: "list_all encodable (str CRLF)" by simp
  have "list_all encodable (join_with (str CRLF) (l0 # ls))"
    using ok
  proof (induction ls arbitrary: l0)
    case Nil then show ?case by simp
  next
    case (Cons l1 ls)
    from Cons.IH[of l1] Cons.prems show ?case by simp
  qed
  then have enc: "encode_response r = Some (?H @ CRLFCRLF @ resp_body r)"
    by (simp add: encode_response_def hs utf8_encode_bytes)
  have H: "?H = join_with CRLF (utf8_bytes l0 # map utf8_bytes ls)"
    by (simp add: utf8_bytes_join)
  have b1: "\<forall>a\<in>set (utf8_bytes l0 # map utf8_bytes ls). CHR 0x0D \<notin> set a"
    using ok utf8_bytes_no_CR by auto
  have b2: "\<forall>a\<in>set (map utf8_bytes ls). a \<noteq> []"
    using ne utf8_bytes_not_Nil by auto
  have idx: "bytes_find (?H @ CRLFCRLF @ resp_body r) CRLFCRLF = int (length ?H)"
    unfolding bytes_find_def H using find_header_end[OF b1 b2, of "resp_body r" 0] by simp
  have lines: "split_sep (str CRLF) (latin1_decode ?H) = map wire_text (l0 # ls)"
  proof -
    have "latin1_decode ?H = join_with [13, 10] (wire_text l0 # map wire_text ls)"
      unfolding H by (simp add: latin1_decode_join wire_text_def[abs_def] comp_def)
    moreover have "\<forall>l\<in>set (wire_text l0 # map wire_text ls). 13 \<notin> set l"
      using ok wire_text_no_CR by auto
    moreover have "str CRLF = [13, 10]" by (simp add: str_def CRLF_def)
    ultimately show ?thesis
      using split_lines[of "wire_text l0" "map wire_text ls" "[]"]
      by (simp add: split_sep_def)
  qed
  have len4: "length CRLFCRLF = 4" by (simp add: CRLFCRLF_def CRLF_def)
  have "decode_response (?H @ CRLFCRLF @ resp_body r) = (map wire_text (l0 # ls), resp_body r)"
    using idx lines len4 by (simp add: decode_response_def Let_def nat_add_distrib)
  with enc show ?thesis by simp
qed

lemma printable_append [simp]: "printable (a @ b) \<longleftrightarrow> printable a \<and> printable b"
  by (auto simp: printable_def)

lemma printable_Nil [simp]: "printable []"
  by (simp add: printable_def)

lemma printable_Cons: "printable (c # s) \<longleftrightarrow> 32 \<le> c \<and> c < 127 \<and> printable s"
  by (auto simp: printable_def)

lemma printable_show_nat [simp]: "printable (show_nat n)"
  unfolding printable_def using digit_show_nat by fastforce

lemma printable_encodable: "printable s \<Longrightarrow> list_all encodable s"
  by (auto simp: printable_def list_all_iff encodable_def)

lemma printable_no_CR: "printable s \<Longrightarrow> 13 \<notin> set s"
  by (auto simp: printable_def)

lemma printable_wire_text: "printable s \<Longrightarrow> wire_text s = s"
  by (rule wire_text_ascii) (auto simp: printable_def)

lemma printable_utf8_bytes: "printable s \<Longrightarrow> utf8_bytes s = latin1_encode s"
  by (induction s) (auto simp: printable_def utf8_bytes_def utf8_enc1_def latin1_encode_def)

subsection \<open>Looking a header up\<close>

lemma split_colon_at: "58 \<notin> set n \<Longrightarrow> split_colon (n @ 58 # v) = (n, v)"
  by (induction n) (simp_all add: split_colon_def)

lemma get_header_loop_hit:
  "58 \<notin> set n \<Longrightarrow> lower (strip n) = key \<Longrightarrow>
   get_header_loop ((n @ 58 # v) # rest) key = Some (strip v)"
  by (simp add: split_colon_at)

lemma get_header_loop_miss:
  "58 \<notin> set n \<Longrightarrow> lower (strip n) \<noteq> key \<Longrightarrow>
   get_header_loop ((n @ 58 # v) # rest) key = get_header_loop rest key"
  by (simp add: split_colon_at)

lemma get_header_loop_no_colon:
  "58 \<notin> set l \<Longrightarrow> get_header_loop (l # rest) key = get_header_loop rest key"
  by simp

lemma strip_value:
  assumes "s \<noteq> []" and "\<not> isspace (hd s)" and "\<not> isspace (last s)"
  shows "strip (32 # s) = s"
proof -
  have sp: "isspace 32" by (simp add: isspace_def)
  obtain a t where s: "s = a # t" using assms(1) by (cases s) auto
  have d1: "dropWhile isspace (32 # s) = s" using sp assms(2) s by simp
  obtain z u where r: "rev s = z # u" using assms(1) by (cases "rev s") auto
  then have "z = last s" using assms(1) by (metis last_rev list.sel(1) hd_rev)
  with assms(3) have "\<not> isspace z" by simp
  then have d2: "dropWhile isspace (rev s) = rev s" unfolding r by simp
  show ?thesis unfolding strip_def d1 d2 by simp
qed


subsection \<open>The date line\<close>

lemma str_decimal: "str (decimal n) = show_nat n"
proof -
  have "\<forall>c\<in>set (show_nat n). (of_char (char_of c :: char) :: nat) = c"
    using digit_show_nat by fastforce
  then show ?thesis by (simp add: str_def decimal_def map_idI)
qed

lemma str_two_digits: "str (two_digits n) = (if n < 10 then 48 # show_nat n else show_nat n)"
  using str_decimal[of n] by (simp add: two_digits_def str_def)

lemma printable_two_digits: "printable (str (two_digits n))"
  by (simp add: str_two_digits printable_Cons)

lemma printable_day_abbr: "printable (str (day_abbr d))"
  by (cases d) (simp_all add: day_abbr_def printable_def str_def)

lemma printable_month_abbr: "printable (str (month_abbr m))"
  by (cases m) (simp_all add: month_abbr_def printable_def str_def)

lemma str_http_date:
  "str (http_date t) =
     str (day_abbr (dt_weekday t)) @ str '', '' @ str (two_digits (dt_day t)) @ str '' ''
     @ str (month_abbr (dt_month t)) @ str '' '' @ show_nat (dt_year t) @ str '' ''
     @ str (two_digits (dt_hour t)) @ str '':'' @ str (two_digits (dt_minute t)) @ str '':''
     @ str (two_digits (dt_second t)) @ str '' GMT''"
  unfolding http_date_def str_append str_decimal ..

lemma printable_http_date: "printable (str (http_date t))"
  unfolding str_http_date
  by (simp add: printable_two_digits printable_day_abbr printable_month_abbr)
     (simp add: printable_def str_def)


lemma printable_show_int [simp]: "printable (show_int i)"
  by (simp add: show_int_def printable_Cons)

lemma printable_lit:
  "printable (str ''HTTP/1.1 '')" "printable (str '' '')" "printable (str ''Date: '')"
  "printable (str ''Content-Type: '')" "printable (str ''Content-Length: '')"
  "printable (str ''Connection: close'')" "printable (str ''HTTP/1.1 301 Moved Permanently'')"
  "printable (str ''Content-Length: 0'')"
  by (simp_all add: printable_def str_def)


lemma redirect_response_wire:
  assumes "list_all encodable url_path" and "13 \<notin> set url_path"
  shows "\<exists>w. encode_response (redirect_response e url_path) = Some w
             \<and> decode_response w
                 = ([str ''HTTP/1.1 301 Moved Permanently'',
                     str ''Location: '' @ wire_text (url_path @ str ''/''),
                     str ''Date: '' @ str (date_text e),
                     str ''Content-Length: 0'',
                     str ''Connection: close''], [])"
proof -
  let ?l0 = "str ''HTTP/1.1 301 Moved Permanently''"
  let ?l1 = "str ''Location: '' @ url_path @ str ''/''"
  let ?l2 = "str ''Date: '' @ str (date_text e)"
  let ?l3 = "str ''Content-Length: 0''"
  let ?l4 = "str ''Connection: close''"
  let ?r = "redirect_response e url_path"
  have hs: "resp_headers ?r = ?l0 # [?l1, ?l2, ?l3, ?l4]"
    by (simp add: redirect_response_def Let_def)
  have p: "printable ?l0" "printable ?l2" "printable ?l3" "printable ?l4"
      "printable (str ''Location: '')" "printable (str ''/'')"
    by (simp_all add: printable_lit date_text_def printable_http_date)
       (simp_all add: printable_def str_def)
  have l1: "list_all encodable ?l1 \<and> 13 \<notin> set ?l1"
    using assms p(5,6) by (simp add: printable_encodable printable_no_CR)
  have ok: "\<forall>l\<in>set (?l0 # [?l1, ?l2, ?l3, ?l4]). list_all encodable l \<and> 13 \<notin> set l"
    using p(1-4) l1 by (simp add: printable_encodable printable_no_CR)
  have ne: "\<forall>l\<in>set [?l1, ?l2, ?l3, ?l4]. l \<noteq> []" by (simp add: str_def)
  from decode_encoded_response[OF hs ok ne] p show ?thesis
    by (simp add: printable_wire_text redirect_response_def Let_def)
qed

lemma header_name_split:
  "str ''Date: '' @ v = str ''Date'' @ 58 # 32 # v"
  "str ''Content-Type: '' @ v = str ''Content-Type'' @ 58 # 32 # v"
  "str ''Content-Length: '' @ v = str ''Content-Length'' @ 58 # 32 # v"
  "str ''Location: '' @ v = str ''Location'' @ 58 # 32 # v"
  "str ''Connection: close'' = str ''Connection'' @ 58 # 32 # str ''close''"
  "str ''Content-Length: 0'' = str ''Content-Length'' @ 58 # 32 # str ''0''"
  by (simp_all add: str_def)

lemma header_names:
  "58 \<notin> set (str ''Date'')" "58 \<notin> set (str ''Content-Type'')"
  "58 \<notin> set (str ''Content-Length'')" "58 \<notin> set (str ''Location'')"
  "58 \<notin> set (str ''Connection'')"
  "lower (strip (str ''Date'')) = str ''date''"
  "lower (strip (str ''Content-Type'')) = str ''content-type''"
  "lower (strip (str ''Content-Length'')) = str ''content-length''"
  "lower (strip (str ''Location'')) = str ''location''"
  "lower (strip (str ''Connection'')) = str ''connection''"
  "lower (str ''Date'') = str ''date''"
  "lower (str ''Content-Type'') = str ''content-type''"
  "lower (str ''Content-Length'') = str ''content-length''"
  "lower (str ''Location'') = str ''location''"
  "lower (str ''Connection'') = str ''connection''"
  by (simp_all add: text_simps)

lemma header_keys_distinct:
  "str ''date'' \<noteq> str ''content-type''" "str ''date'' \<noteq> str ''content-length''"
  "str ''date'' \<noteq> str ''connection''" "str ''date'' \<noteq> str ''location''"
  "str ''content-type'' \<noteq> str ''content-length''" "str ''content-type'' \<noteq> str ''connection''"
  "str ''content-type'' \<noteq> str ''location''" "str ''content-type'' \<noteq> str ''date''"
  "str ''content-length'' \<noteq> str ''connection''" "str ''content-length'' \<noteq> str ''location''"
  "str ''content-length'' \<noteq> str ''date''" "str ''content-length'' \<noteq> str ''content-type''"
  "str ''connection'' \<noteq> str ''location''" "str ''connection'' \<noteq> str ''date''"
  "str ''connection'' \<noteq> str ''content-type''" "str ''connection'' \<noteq> str ''content-length''"
  "str ''location'' \<noteq> str ''date''" "str ''location'' \<noteq> str ''content-type''"
  "str ''location'' \<noteq> str ''content-length''" "str ''location'' \<noteq> str ''connection''"
  by (simp_all add: str_def)

lemmas header_lookup =
  get_header_value_def header_name_split header_names header_keys_distinct
  split_colon_at

lemma strip_close: "strip (32 # str ''close'') = str ''close''" "strip (32 # str ''0'') = str ''0''"
  by (simp_all add: text_simps)


lemma redirect_response_lookup:
  assumes "58 \<notin> set l0"
  shows "get_header_value [l0, str ''Location: '' @ u, str ''Date: '' @ d,
            str ''Content-Length: 0'', str ''Connection: close''] (str ''Location'')
           = Some (strip (32 # u))"
    and "get_header_value [l0, str ''Location: '' @ u, str ''Date: '' @ d,
            str ''Content-Length: 0'', str ''Connection: close''] (str ''Date'')
           = Some (strip (32 # d))"
    and "get_header_value [l0, str ''Location: '' @ u, str ''Date: '' @ d,
            str ''Content-Length: 0'', str ''Connection: close''] (str ''Content-Length'')
           = Some (str ''0'')"
    and "get_header_value [l0, str ''Location: '' @ u, str ''Date: '' @ d,
            str ''Content-Length: 0'', str ''Connection: close''] (str ''Connection'')
           = Some (str ''close'')"
    and "get_header_value [l0, str ''Location: '' @ u, str ''Date: '' @ d,
            str ''Content-Length: 0'', str ''Connection: close''] (str ''Content-Type'')
           = None"
  using assms by (simp_all add: header_lookup strip_close)







lemma demo_redirect_sub:
  "respond demo_env (str ''root'') (''GET /sub HTTP/1.1'' @ CRLF @ CRLF)
     = Inr (Some (redirect_response demo_env (str ''/sub'')))"
proof -
  have words: "request_words (utf8_decode Ignore (''GET /sub HTTP/1.1'' @ CRLF @ CRLF))
     = [str ''GET'', str ''/sub'', str ''HTTP/1.1'']"
    by (simp add: request_simps text_simps)
  have u: "unquote (str ''/sub'') = str ''/sub''"
    by (simp add: unquote_def str_def)
  have nd: "\<not> sublist (str ''..'') (unquote (str ''/sub''))"
    by (simp add: u) (simp add: str_def sublist_Cons_right)
  have ns: "\<not> suffix (str ''/'') (unquote (str ''/sub''))"
    by (simp add: u) (simp add: str_def suffix_to_prefix)
  have d: "fs demo_env (path_join (str ''root'') (lstrip_slash (unquote (str ''/sub''))))
        = Some (Dir (Some [str ''z'', str ''a..b'', str ''B'']))"
    by (simp add: u) (simp add: demo_env_def demo_fs_def path_join_def suffix_to_prefix text_simps)
  show ?thesis using respond_redirect[OF words nd ns d] by (simp add: u)
qed




lemmas client_simps =
  wire_header_def decode_response_def bytes_find_def get_header_value_def split_colon_def Let_def

section \<open>Claims about the response headers\<close>




lemma split_ws_go_words:
  "t \<in> set (split_ws_go cur s) \<Longrightarrow> \<forall>c\<in>set cur. \<not> isspace c \<Longrightarrow>
   t \<noteq> [] \<and> (\<forall>c\<in>set t. \<not> isspace c)"
proof (induction s arbitrary: cur)
  case Nil
  then show ?case by (auto split: if_splits)
next
  case (Cons c cs)
  show ?case
  proof (cases "isspace c")
    case True
    with Cons.prems(1) have "(t = cur \<and> cur \<noteq> []) \<or> t \<in> set (split_ws_go [] cs)"
      by (auto split: if_splits)
    then show ?thesis using Cons.IH[of "[]"] Cons.prems(2) by auto
  next
    case False
    with Cons.prems(1) have "t \<in> set (split_ws_go (cur @ [c]) cs)" by simp
    then show ?thesis using Cons.IH[of "cur @ [c]"] Cons.prems(2) False by auto
  qed
qed

lemma request_words_no_space:
  assumes "t \<in> set (request_words r)"
  shows "t \<noteq> [] \<and> (\<forall>c\<in>set t. \<not> isspace c)"
  using assms split_ws_go_words[of t "[]"] by (simp add: request_words_def split_ws_def)

lemma lead_byte_no_space: "192 \<le> n \<Longrightarrow> n < 256 \<Longrightarrow> \<not> isspace n"
  by (simp add: isspace_def)

lemma utf8_enc1_lead:
  assumes "encodable c" and "\<not> isspace c"
  shows "utf8_enc1 c \<noteq> [] \<and> \<not> isspace (of_char (hd (utf8_enc1 c)))"
proof -
  consider (a) "c < 0x80" | (b) "0x80 \<le> c" "c < 0x800" | (c) "0x800 \<le> c" "c < 0x10000"
    | (d) "0x10000 \<le> c" "c < 0x110000"
    using assms(1) unfolding encodable_def by linarith
  then show ?thesis
  proof cases
    case a
    with assms(2) show ?thesis by (simp add: utf8_enc1_def)
  next
    case b
    have "c div 64 < 32" using b by simp
    then have lt: "0xC0 + c div 64 < 256" by linarith
    then have "(of_char (char_of (0xC0 + c div 64) :: char) :: nat) = 0xC0 + c div 64" by simp
    moreover have "\<not> isspace (0xC0 + c div 64)" using lt by (intro lead_byte_no_space) simp_all
    ultimately show ?thesis using b by (simp add: utf8_enc1_def)
  next
    case c
    have "c div 4096 < 16" using c by simp
    then have lt: "0xE0 + c div 4096 < 256" by linarith
    then have "(of_char (char_of (0xE0 + c div 4096) :: char) :: nat) = 0xE0 + c div 4096" by simp
    moreover have "\<not> isspace (0xE0 + c div 4096)" using lt by (intro lead_byte_no_space) simp_all
    ultimately show ?thesis using c by (simp add: utf8_enc1_def)
  next
    case d
    have "c div 262144 < 5" using d by simp
    then have lt: "0xF0 + c div 262144 < 256" by linarith
    then have "(of_char (char_of (0xF0 + c div 262144) :: char) :: nat) = 0xF0 + c div 262144"
      by simp
    moreover have "\<not> isspace (0xF0 + c div 262144)"
      using lt by (intro lead_byte_no_space) simp_all
    ultimately show ?thesis using d by (simp add: utf8_enc1_def)
  qed
qed

lemma strip_location:
  assumes "list_all encodable p" and "p \<noteq> []" and "\<not> isspace (hd p)"
  shows "strip (32 # wire_text (p @ str ''/'')) = wire_text p @ str ''/''"
proof -
  obtain c q where p: "p = c # q" using assms(2) by (cases p) auto
  with assms have c: "encodable c" "\<not> isspace c" by simp_all
  from utf8_enc1_lead[OF c] obtain b bs where b: "utf8_enc1 c = b # bs" "\<not> isspace (of_char b)"
    by (cases "utf8_enc1 c") auto
  have s: "wire_text (str ''/'') = str ''/''" by (rule wire_text_str_ascii) simp
  have hd: "hd (wire_text p @ str ''/'') = of_char b"
    by (simp add: p wire_text_def utf8_bytes_def latin1_decode_def b(1))
  have "strip (32 # (wire_text p @ str ''/'')) = wire_text p @ str ''/''"
  proof (rule strip_value)
    show "wire_text p @ str ''/'' \<noteq> []" by (simp add: str_def)
    show "\<not> isspace (hd (wire_text p @ str ''/''))" using hd b(2) by simp
    show "\<not> isspace (last (wire_text p @ str ''/''))" by (simp add: str_def isspace_def)
  qed
  then show ?thesis by (simp add: s)
qed

lemma http_date_ascii: "\<forall>c\<in>set (http_date t). of_char c < (128::nat)"
  using printable_http_date[of t] by (auto simp: printable_def str_def)

lemma redirect_response_bytes:
  assumes "encode_response (redirect_response e url_path) = Some w"
  shows "w = ''HTTP/1.1 301 Moved Permanently'' @ CRLF @ ''Location: '' @ utf8_bytes url_path
             @ ''/'' @ CRLF @ ''Date: '' @ date_text e @ CRLF @ ''Content-Length: 0'' @ CRLF
             @ ''Connection: close'' @ CRLF @ CRLF"
proof -
  have a: "utf8_bytes (str ''HTTP/1.1 301 Moved Permanently'') = ''HTTP/1.1 301 Moved Permanently''"
    "utf8_bytes (str ''Location: '') = ''Location: ''" "utf8_bytes (str ''/'') = ''/''"
    "utf8_bytes (str ''Date: '') = ''Date: ''"
    "utf8_bytes (str ''Content-Length: 0'') = ''Content-Length: 0''"
    "utf8_bytes (str ''Connection: close'') = ''Connection: close''"
    "utf8_bytes (str CRLF) = CRLF"
    by (rule utf8_bytes_ascii, simp add: CRLF_def)+
  have d: "utf8_bytes (str (date_text e)) = date_text e"
    by (rule utf8_bytes_ascii) (simp add: date_text_def http_date_ascii)
  from assms have "w = utf8_bytes (join_with (str CRLF) (resp_headers (redirect_response e url_path)))
      @ CRLFCRLF"
    by (auto simp: encode_response_def utf8_encode_def utf8_bytes_def redirect_response_def
          Let_def split: if_splits)
  then show ?thesis
    by (simp add: redirect_response_def Let_def a d CRLFCRLF_def)
qed

section \<open>Claims about the redirect\<close>

text \<open>
  C5 as stated fails twice.  The substring test of line 73 comes before any look at the
  file system: in the example tree \<^verbatim>\<open>root/sub/a..b\<close> is a directory, the request path
  \<^verbatim>\<open>/sub/a..b\<close> has no trailing slash and no \<^verbatim>\<open>..\<close> segment, and the answer is 403.
  And the Location is built from the percent-decoded path, which is not quoted again: the
  request for \<^verbatim>\<open>/a%5Cb\<close> is redirected to a Location that holds the backslash itself,
  which is not the requested path with a slash appended.
\<close>

theorem directory_not_redirected_to_same_path:
  "request_words (utf8_decode Ignore (''GET /sub/a..b HTTP/1.1'' @ CRLF @ CRLF))
     = [str ''GET'', str ''/sub/a..b'', str ''HTTP/1.1'']
   \<and> \<not> suffix (str ''/'') (unquote (str ''/sub/a..b''))
   \<and> \<not> has_dotdot_segment (unquote (str ''/sub/a..b''))
   \<and> isdir demo_env (path_join (str ''root'') (lstrip_slash (unquote (str ''/sub/a..b''))))
   \<and> sent (fst (handle_request demo_env (demo_sock (''GET /sub/a..b HTTP/1.1'' @ CRLF @ CRLF))
                   (str ''root'')))
       = ''HTTP/1.1 403 Forbidden'' @ CRLF @ ''Date: Wed, 04 Nov 2026 08:00:00 GMT'' @ CRLF
         @ ''Content-Type: text/plain'' @ CRLF @ ''Content-Length: 43'' @ CRLF
         @ ''Connection: close'' @ CRLF @ CRLF @ ''403 Forbidden: Directory traversal attempt.''
   \<and> request_words (utf8_decode Ignore (''GET /a%5Cb HTTP/1.1'' @ CRLF @ CRLF))
     = [str ''GET'', str ''/a%5Cb'', str ''HTTP/1.1'']
   \<and> isdir demo_env (path_join (str ''root'') (lstrip_slash (unquote (str ''/a%5Cb''))))
   \<and> sent (fst (handle_request demo_env (demo_sock (''GET /a%5Cb HTTP/1.1'' @ CRLF @ CRLF))
                   (str ''root'')))
       = ''HTTP/1.1 301 Moved Permanently'' @ CRLF @ ''Location: /a'' @ [CHR 0x5C] @ ''b/'' @ CRLF
         @ ''Date: Wed, 04 Nov 2026 08:00:00 GMT'' @ CRLF @ ''Content-Length: 0'' @ CRLF
         @ ''Connection: close'' @ CRLF @ CRLF
   \<and> wire_header (sent (fst (handle_request demo_env
          (demo_sock (''GET /a%5Cb HTTP/1.1'' @ CRLF @ CRLF)) (str ''root'')))) ''Location''
       = Some (str ''/a'' @ [92] @ str ''b/'')
   \<and> str ''/a'' @ [92] @ str ''b/'' \<noteq> str ''/a%5Cb'' @ str ''/''"
proof -
  let ?s1 = "demo_sock (''GET /sub/a..b HTTP/1.1'' @ CRLF @ CRLF)"
  let ?s2 = "demo_sock (''GET /a%5Cb HTTP/1.1'' @ CRLF @ CRLF)"
  have words: "request_words (utf8_decode Ignore (''GET /sub/a..b HTTP/1.1'' @ CRLF @ CRLF))
     = [str ''GET'', str ''/sub/a..b'', str ''HTTP/1.1'']"
    by (simp add: request_simps text_simps)
  have u: "unquote (str ''/sub/a..b'') = str ''/sub/a..b''"
    by (simp add: unquote_def str_def)
  have ns: "\<not> suffix (str ''/'') (unquote (str ''/sub/a..b''))"
    by (simp add: u) (simp add: str_def suffix_to_prefix)
  have nseg: "\<not> has_dotdot_segment (unquote (str ''/sub/a..b''))"
    by (simp add: u) (simp add: has_dotdot_segment_def text_simps)
  have d: "isdir demo_env (path_join (str ''root'') (lstrip_slash (unquote (str ''/sub/a..b''))))"
    by (simp add: u) (simp add: isdir_def demo_env_def demo_fs_def path_join_def
        suffix_to_prefix text_simps)
  have sub: "sublist (str ''..'') (unquote (str ''/sub/a..b''))"
    by (simp add: u) (simp add: str_def sublist_Cons_right)
  have r1: "respond demo_env (str ''root'') (take 4096 (incoming ?s1))
       = Inr (Some (forbidden_response demo_env))"
  proof (rule respond_forbidden[OF _ sub])
    show "request_words (utf8_decode Ignore (take 4096 (incoming ?s1)))
            = [str ''GET'', str ''/sub/a..b'', str ''HTTP/1.1'']"
      using words by (simp add: demo_sock_def CRLF_def)
  qed
  have enc1: "encode_response (forbidden_response demo_env)
       = Some (''HTTP/1.1 403 Forbidden'' @ CRLF @ ''Date: Wed, 04 Nov 2026 08:00:00 GMT'' @ CRLF
         @ ''Content-Type: text/plain'' @ CRLF @ ''Content-Length: 43'' @ CRLF
         @ ''Connection: close'' @ CRLF @ CRLF @ ''403 Forbidden: Directory traversal attempt.'')"
    by (simp add: response_simps text_simps)
  have s1: "sent (fst (handle_request demo_env ?s1 (str ''root'')))
       = ''HTTP/1.1 403 Forbidden'' @ CRLF @ ''Date: Wed, 04 Nov 2026 08:00:00 GMT'' @ CRLF
         @ ''Content-Type: text/plain'' @ CRLF @ ''Content-Length: 43'' @ CRLF
         @ ''Connection: close'' @ CRLF @ CRLF @ ''403 Forbidden: Directory traversal attempt.''"
    using handle_request_sends[OF r1 enc1] by (simp add: sendall_def demo_sock_def)
  have words2: "request_words (utf8_decode Ignore (''GET /a%5Cb HTTP/1.1'' @ CRLF @ CRLF))
     = [str ''GET'', str ''/a%5Cb'', str ''HTTP/1.1'']"
    by (simp add: request_simps text_simps)
  have u2: "unquote (str ''/a%5Cb'') = str ''/a'' @ [92] @ str ''b''"
    by (simp add: url_simps text_simps)
  have nd2: "\<not> sublist (str ''..'') (unquote (str ''/a%5Cb''))"
    unfolding u2 by (simp add: str_def sublist_Cons_right)
  have ns2: "\<not> suffix (str ''/'') (unquote (str ''/a%5Cb''))"
    unfolding u2 by (simp add: str_def suffix_to_prefix)
  have f2: "fs demo_env (path_join (str ''root'') (lstrip_slash (unquote (str ''/a%5Cb''))))
        = Some (Dir (Some [str ''x'']))"
    unfolding u2 by (simp add: demo_env_def demo_fs_def path_join_def suffix_to_prefix text_simps)
  then have d2: "isdir demo_env (path_join (str ''root'') (lstrip_slash (unquote (str ''/a%5Cb''))))"
    by (simp add: isdir_def)
  have "respond demo_env (str ''root'') (''GET /a%5Cb HTTP/1.1'' @ CRLF @ CRLF)
       = Inr (Some (redirect_response demo_env (unquote (str ''/a%5Cb''))))"
    using words2 nd2 ns2 f2 by (rule respond_redirect)
  then have r2: "respond demo_env (str ''root'') (take 4096 (incoming ?s2))
       = Inr (Some (redirect_response demo_env (str ''/a'' @ [92] @ str ''b'')))"
    unfolding u2 by (simp add: demo_sock_def CRLF_def)
  have enc2: "encode_response (redirect_response demo_env (str ''/a'' @ [92] @ str ''b''))
       = Some (''HTTP/1.1 301 Moved Permanently'' @ CRLF @ ''Location: /a'' @ [CHR 0x5C] @ ''b/''
         @ CRLF @ ''Date: Wed, 04 Nov 2026 08:00:00 GMT'' @ CRLF @ ''Content-Length: 0'' @ CRLF
         @ ''Connection: close'' @ CRLF @ CRLF)"
    by (simp add: redirect_response_def Let_def response_simps text_simps)
  have s2: "sent (fst (handle_request demo_env ?s2 (str ''root'')))
       = ''HTTP/1.1 301 Moved Permanently'' @ CRLF @ ''Location: /a'' @ [CHR 0x5C] @ ''b/'' @ CRLF
         @ ''Date: Wed, 04 Nov 2026 08:00:00 GMT'' @ CRLF @ ''Content-Length: 0'' @ CRLF
         @ ''Connection: close'' @ CRLF @ CRLF"
    using handle_request_sends[OF r2 enc2] by (simp add: sendall_def demo_sock_def)
  have h2: "wire_header (''HTTP/1.1 301 Moved Permanently'' @ CRLF @ ''Location: /a''
         @ [CHR 0x5C] @ ''b/'' @ CRLF
         @ ''Date: Wed, 04 Nov 2026 08:00:00 GMT'' @ CRLF @ ''Content-Length: 0'' @ CRLF
         @ ''Connection: close'' @ CRLF @ CRLF) ''Location''
       = Some (str ''/a'' @ [92] @ str ''b/'')"
    by (simp add: client_simps text_simps)
  have neq: "str ''/a'' @ [92] @ str ''b/'' \<noteq> str ''/a%5Cb'' @ str ''/''"
    by (simp add: str_def)
  from words ns nseg d words2 d2 neq h2 show ?thesis
    unfolding s1 s2 by blast
qed

text \<open>
  C5, as amended.  For every GET request whose percent-decoded path holds no \<^verbatim>\<open>..\<close>,
  does not end in a slash, and names an existing directory under the document root, the
  handler sends bytes that begin with the status line of the 301 response and the name of
  the Location header, and not with that of a 200 response.  When percent-decoding leaves
  the path of the request as it is, the bytes sent are known in full: the Location line
  holds the UTF-8 bytes of that same path and one slash, and a client that reads the
  header section finds the Location header with that value.
\<close>

theorem directory_without_slash_redirected:
  assumes "request_words (utf8_decode Ignore (take 4096 (incoming client_socket)))
             = [str ''GET'', wire_path, version]"
      and "\<not> sublist (str ''..'') (unquote wire_path)"
      and "\<not> suffix (str ''/'') (unquote wire_path)"
      and "fs e (path_join doc_root (lstrip_slash (unquote wire_path))) = Some (Dir names)"
  shows "\<exists>w. handle_request e client_socket doc_root
               = (sendall w (client_socket\<lparr>incoming := drop 4096 (incoming client_socket)\<rparr>),
                  None)
           \<and> prefix (''HTTP/1.1 301 Moved Permanently'' @ CRLF @ ''Location: '') w
           \<and> \<not> prefix ''HTTP/1.1 200'' w
           \<and> (unquote wire_path = wire_path \<longrightarrow>
                w = ''HTTP/1.1 301 Moved Permanently'' @ CRLF
                    @ ''Location: '' @ utf8_bytes wire_path @ ''/'' @ CRLF
                    @ ''Date: '' @ date_text e @ CRLF
                    @ ''Content-Length: 0'' @ CRLF
                    @ ''Connection: close'' @ CRLF @ CRLF
                \<and> decode_response w
                    = ([str ''HTTP/1.1 301 Moved Permanently'',
                        str ''Location: '' @ wire_text wire_path @ str ''/'',
                        str ''Date: '' @ str (date_text e),
                        str ''Content-Length: 0'',
                        str ''Connection: close''], [])
                \<and> wire_header w ''Location'' = Some (wire_text wire_path @ str ''/''))"
proof -
  let ?u = "unquote wire_path"
  let ?s = "client_socket\<lparr>incoming := drop 4096 (incoming client_socket)\<rparr>"
  have r: "respond e doc_root (take 4096 (incoming client_socket))
           = Inr (Some (redirect_response e ?u))"
    using assms by (rule respond_redirect)
  have encu: "list_all encodable ?u" using assms(1) by (rule url_path_encodable)
  then obtain w where enc: "encode_response (redirect_response e ?u) = Some w"
    using encode_redirect_response by blast
  have sent: "handle_request e client_socket doc_root = (sendall w ?s, None)"
    using r enc by (rule handle_request_sends)
  note w = redirect_response_bytes[OF enc]
  have p1: "prefix (''HTTP/1.1 301 Moved Permanently'' @ CRLF @ ''Location: '') w"
    unfolding w by (simp add: CRLF_def)
  have p2: "\<not> prefix ''HTTP/1.1 200'' w"
    unfolding w by simp
  have same: "w = ''HTTP/1.1 301 Moved Permanently'' @ CRLF
                    @ ''Location: '' @ utf8_bytes wire_path @ ''/'' @ CRLF
                    @ ''Date: '' @ date_text e @ CRLF
                    @ ''Content-Length: 0'' @ CRLF
                    @ ''Connection: close'' @ CRLF @ CRLF
                \<and> decode_response w
                    = ([str ''HTTP/1.1 301 Moved Permanently'',
                        str ''Location: '' @ wire_text wire_path @ str ''/'',
                        str ''Date: '' @ str (date_text e),
                        str ''Content-Length: 0'',
                        str ''Connection: close''], [])
                \<and> wire_header w ''Location'' = Some (wire_text wire_path @ str ''/'')"
    if eq: "?u = wire_path"
  proof -
    have "wire_path \<in> set (request_words (utf8_decode Ignore (take 4096 (incoming client_socket))))"
      using assms(1) by simp
    from request_words_no_space[OF this]
    have ne: "wire_path \<noteq> []" and nsp: "\<forall>c\<in>set wire_path. \<not> isspace c" by simp_all
    have "isspace 13" by (simp add: isspace_def)
    with nsp have nocr: "13 \<notin> set wire_path" by blast
    from ne nsp have hd: "\<not> isspace (hd wire_path)" by simp
    from encu eq have encw: "list_all encodable wire_path" by simp
    have s: "wire_text (str ''/'') = str ''/''" by (rule wire_text_str_ascii) simp
    from redirect_response_wire[OF encw nocr, of e] enc eq
    have d: "decode_response w
                    = ([str ''HTTP/1.1 301 Moved Permanently'',
                        str ''Location: '' @ wire_text wire_path @ str ''/'',
                        str ''Date: '' @ str (date_text e),
                        str ''Content-Length: 0'',
                        str ''Connection: close''], [])"
      by (auto simp: s)
    have nc: "58 \<notin> set (str ''HTTP/1.1 301 Moved Permanently'')" by (simp add: str_def)
    have "wire_header w ''Location'' = Some (strip (32 # wire_text wire_path @ str ''/''))"
      unfolding wire_header_def d fst_conv using redirect_response_lookup(1)[OF nc] by simp
    also have "strip (32 # wire_text wire_path @ str ''/'') = wire_text wire_path @ str ''/''"
      using strip_location[OF encw ne hd] by (simp add: s)
    finally have h: "wire_header w ''Location'' = Some (wire_text wire_path @ str ''/'')" .
    from w eq d h show ?thesis by simp
  qed
  from sent p1 p2 same show ?thesis by blast
qed

theorem directory_without_slash_redirected_witness:
  "unquote (str ''/sub'') = str ''/sub''
   \<and> sent (fst (handle_request demo_env (demo_sock (''GET /sub HTTP/1.1'' @ CRLF @ CRLF))
                  (str ''root'')))
       = ''HTTP/1.1 301 Moved Permanently'' @ CRLF @ ''Location: /sub/'' @ CRLF
         @ ''Date: Wed, 04 Nov 2026 08:00:00 GMT'' @ CRLF @ ''Content-Length: 0'' @ CRLF
         @ ''Connection: close'' @ CRLF @ CRLF
   \<and> wire_header (sent (fst (handle_request demo_env
          (demo_sock (''GET /sub HTTP/1.1'' @ CRLF @ CRLF)) (str ''root'')))) ''Location''
       = Some (str ''/sub/'')"
proof -
  let ?s = "demo_sock (''GET /sub HTTP/1.1'' @ CRLF @ CRLF)"
  have words: "request_words (utf8_decode Ignore (take 4096 (incoming ?s)))
     = [str ''GET'', str ''/sub'', str ''HTTP/1.1'']"
    by (simp add: request_simps text_simps)
  have u: "unquote (str ''/sub'') = str ''/sub''"
    by (simp add: unquote_def str_def)
  have nd: "\<not> sublist (str ''..'') (unquote (str ''/sub''))"
    by (simp add: u) (simp add: str_def sublist_Cons_right)
  have ns: "\<not> suffix (str ''/'') (unquote (str ''/sub''))"
    by (simp add: u) (simp add: str_def suffix_to_prefix)
  have d: "fs demo_env (path_join (str ''root'') (lstrip_slash (unquote (str ''/sub''))))
        = Some (Dir (Some [str ''z'', str ''a..b'', str ''B'']))"
    by (simp add: u) (simp add: demo_env_def demo_fs_def path_join_def suffix_to_prefix text_simps)
  have b: "utf8_bytes (str ''/sub'') = ''/sub''" by (rule utf8_bytes_ascii) simp
  have t: "wire_text (str ''/sub'') = str ''/sub''" by (rule wire_text_str_ascii) simp
  have date: "date_text demo_env = ''Wed, 04 Nov 2026 08:00:00 GMT''"
    by (simp add: date_text_def demo_env_def http_date_demo)
  from directory_without_slash_redirected[OF words nd ns d] u obtain w where
    w: "handle_request demo_env ?s (str ''root'')
          = (sendall w (?s\<lparr>incoming := drop 4096 (incoming ?s)\<rparr>), None)"
       "w = ''HTTP/1.1 301 Moved Permanently'' @ CRLF
                    @ ''Location: '' @ utf8_bytes (str ''/sub'') @ ''/'' @ CRLF
                    @ ''Date: '' @ date_text demo_env @ CRLF
                    @ ''Content-Length: 0'' @ CRLF
                    @ ''Connection: close'' @ CRLF @ CRLF"
       "wire_header w ''Location'' = Some (wire_text (str ''/sub'') @ str ''/'')"
    by blast
  have s: "sent (fst (handle_request demo_env ?s (str ''root''))) = w"
    unfolding w(1) by (simp add: sendall_def demo_sock_def)
  have l: "wire_header w ''Location'' = Some (str ''/sub/'')"
    using w(3) unfolding t by (simp add: str_def)
  from u l show ?thesis unfolding s using w(2) by (simp add: b date)
qed

section \<open>Text decoding: helper facts\<close>

lemma utf8_decode_step:
  assumes hi: "128 \<le> (of_char b :: nat)"
  shows "\<exists>k. k \<le> length r1
           \<and> (utf8_decode Ignore (b # r1) = utf8_decode Ignore (drop k r1)
              \<or> (1 \<le> k \<and> (\<exists>c. utf8_decode Ignore (b # r1) = c # utf8_decode Ignore (drop k r1))))"
proof -
  consider (bad) "(of_char b :: nat) < 0xC2"
    | (two) "0xC2 \<le> (of_char b :: nat)" "(of_char b :: nat) < 0xE0"
    | (three) "0xE0 \<le> (of_char b :: nat)" "(of_char b :: nat) < 0xF0"
    | (four) "0xF0 \<le> (of_char b :: nat)" "(of_char b :: nat) < 0xF5"
    | (high) "0xF5 \<le> (of_char b :: nat)"
    by linarith
  then show ?thesis
  proof cases
    case bad
    with hi have "utf8_decode Ignore (b # r1) = utf8_decode Ignore (drop 0 r1)"
      by (simp add: Let_def on_error_def)
    then show ?thesis by (intro exI[of _ 0]) simp
  next
    case high
    then have "utf8_decode Ignore (b # r1) = utf8_decode Ignore (drop 0 r1)"
      by (simp add: Let_def on_error_def)
    then show ?thesis by (intro exI[of _ 0]) simp
  next
    case two
    show ?thesis
    proof (cases r1)
      case Nil
      with two have "utf8_decode Ignore (b # r1) = utf8_decode Ignore (drop 0 r1)"
        by (simp add: Let_def on_error_def)
      then show ?thesis by (intro exI[of _ 0]) simp
    next
      case r1: (Cons b2 r2)
      show ?thesis
      proof (cases "is_cont (of_char b2)")
        case True
        with two r1 have "\<exists>c. utf8_decode Ignore (b # r1) = c # utf8_decode Ignore (drop 1 r1)"
          by (simp add: Let_def on_error_def)
        then show ?thesis using r1 by (intro exI[of _ 1]) simp
      next
        case False
        with two r1 have "utf8_decode Ignore (b # r1) = utf8_decode Ignore (drop 0 r1)"
          by (simp add: Let_def on_error_def)
        then show ?thesis by (intro exI[of _ 0]) simp
      qed
    qed
  next
    case three
    show ?thesis
    proof (cases r1)
      case Nil
      with three have "utf8_decode Ignore (b # r1) = utf8_decode Ignore (drop 0 r1)"
        by (simp add: Let_def on_error_def)
      then show ?thesis by (intro exI[of _ 0]) simp
    next
      case r1: (Cons b2 r2)
      show ?thesis
      proof (cases "\<not> is_cont (of_char b2)
                    \<or> (if (of_char b2 :: nat) < 0xA0 then (of_char b :: nat) = 0xE0
                        else (of_char b :: nat) = 0xED)")
        case True
        with three r1 have "utf8_decode Ignore (b # r1) = utf8_decode Ignore (drop 0 r1)"
          by (auto simp: Let_def on_error_def)
        then show ?thesis by (intro exI[of _ 0]) simp
      next
        case ok2: False
        show ?thesis
        proof (cases r2)
          case Nil
          with three ok2 r1 have "utf8_decode Ignore (b # r1) = utf8_decode Ignore (drop 1 r1)"
            by (auto simp: Let_def on_error_def)
          then show ?thesis using r1 by (intro exI[of _ 1]) simp
        next
          case r2: (Cons b3 r3)
          show ?thesis
          proof (cases "is_cont (of_char b3)")
            case True
            with three ok2 r1 r2
            have "\<exists>c. utf8_decode Ignore (b # r1) = c # utf8_decode Ignore (drop 2 r1)"
              by (auto simp: Let_def on_error_def)
            then show ?thesis using r1 r2 by (intro exI[of _ 2]) simp
          next
            case False
            with three ok2 r1 r2
            have "utf8_decode Ignore (b # r1) = utf8_decode Ignore (drop 1 r1)"
              by (auto simp: Let_def on_error_def)
            then show ?thesis using r1 by (intro exI[of _ 1]) simp
          qed
        qed
      qed
    qed
  next
    case four
    show ?thesis
    proof (cases r1)
      case Nil
      with four have "utf8_decode Ignore (b # r1) = utf8_decode Ignore (drop 0 r1)"
        by (simp add: Let_def on_error_def)
      then show ?thesis by (intro exI[of _ 0]) simp
    next
      case r1: (Cons b2 r2)
      show ?thesis
      proof (cases "\<not> is_cont (of_char b2)
                    \<or> (if (of_char b2 :: nat) < 0x90 then (of_char b :: nat) = 0xF0
                        else (of_char b :: nat) = 0xF4)")
        case True
        with four r1 have "utf8_decode Ignore (b # r1) = utf8_decode Ignore (drop 0 r1)"
          by (auto simp: Let_def on_error_def)
        then show ?thesis by (intro exI[of _ 0]) simp
      next
        case ok2: False
        show ?thesis
        proof (cases r2)
          case Nil
          with four ok2 r1 have "utf8_decode Ignore (b # r1) = utf8_decode Ignore (drop 1 r1)"
            by (auto simp: Let_def on_error_def)
          then show ?thesis using r1 by (intro exI[of _ 1]) simp
        next
          case r2: (Cons b3 r3)
          show ?thesis
          proof (cases "is_cont (of_char b3)")
            case False
            with four ok2 r1 r2
            have "utf8_decode Ignore (b # r1) = utf8_decode Ignore (drop 1 r1)"
              by (auto simp: Let_def on_error_def)
            then show ?thesis using r1 by (intro exI[of _ 1]) simp
          next
            case ok3: True
            show ?thesis
            proof (cases r3)
              case Nil
              with four ok2 ok3 r1 r2
              have "utf8_decode Ignore (b # r1) = utf8_decode Ignore (drop 2 r1)"
                by (auto simp: Let_def on_error_def)
              then show ?thesis using r1 r2 by (intro exI[of _ 2]) simp
            next
              case r3: (Cons b4 r4)
              show ?thesis
              proof (cases "is_cont (of_char b4)")
                case True
                with four ok2 ok3 r1 r2 r3
                have "\<exists>c. utf8_decode Ignore (b # r1) = c # utf8_decode Ignore (drop 3 r1)"
                  by (auto simp: Let_def on_error_def)
                then show ?thesis using r1 r2 r3 by (intro exI[of _ 3]) simp
              next
                case False
                with four ok2 ok3 r1 r2 r3
                have "utf8_decode Ignore (b # r1) = utf8_decode Ignore (drop 2 r1)"
                  by (auto simp: Let_def on_error_def)
                then show ?thesis using r1 r2 by (intro exI[of _ 2]) simp
              qed
            qed
          qed
        qed
      qed
    qed
  qed
qed

lemma utf8_decode_length: "length (utf8_decode Ignore bs) \<le> length bs"
proof (induction bs rule: length_induct)
  case (1 bs)
  then have IH: "\<And>ys. length ys < length bs \<Longrightarrow> length (utf8_decode Ignore ys) \<le> length ys"
    by blast
  show ?case
  proof (cases bs)
    case Nil
    then show ?thesis by simp
  next
    case (Cons b r1)
    show ?thesis
    proof (cases "(of_char b :: nat) < 128")
      case True
      then show ?thesis using IH[of r1] Cons by (simp add: Let_def)
    next
      case False
      then have "128 \<le> (of_char b :: nat)" by simp
      from utf8_decode_step[OF this, of r1] obtain k where k: "k \<le> length r1"
        "utf8_decode Ignore (b # r1) = utf8_decode Ignore (drop k r1)
         \<or> (1 \<le> k \<and> (\<exists>c. utf8_decode Ignore (b # r1) = c # utf8_decode Ignore (drop k r1)))"
        by blast
      have "length (utf8_decode Ignore (drop k r1)) \<le> length r1 - k"
        using IH[of "drop k r1"] Cons by simp
      with k show ?thesis unfolding Cons by (elim disjE conjE exE) simp_all
    qed
  qed
qed

lemma utf8_decode_shorter:
  assumes "128 \<le> (of_char b :: nat)"
  shows "length (utf8_decode Ignore (b # r1)) \<le> length r1"
proof -
  from utf8_decode_step[OF assms, of r1] obtain k where k: "k \<le> length r1"
    "utf8_decode Ignore (b # r1) = utf8_decode Ignore (drop k r1)
     \<or> (1 \<le> k \<and> (\<exists>c. utf8_decode Ignore (b # r1) = c # utf8_decode Ignore (drop k r1)))"
    by blast
  have "length (utf8_decode Ignore (drop k r1)) \<le> length r1 - k"
    using utf8_decode_length[of "drop k r1"] by simp
  with k show ?thesis by (elim disjE conjE exE) simp_all
qed

lemma utf8_decode_ascii_prefix:
  "\<forall>b\<in>set pre. of_char b < (128::nat) \<Longrightarrow>
   utf8_decode h (pre @ rest) = latin1_decode pre @ utf8_decode h rest"
  by (induction pre) (simp_all add: latin1_decode_def Let_def)

lemma utf8_decode_latin1_iff:
  "utf8_decode Ignore data = latin1_decode data \<longleftrightarrow> (\<forall>b\<in>set data. of_char b < (128::nat))"
proof
  assume "\<forall>b\<in>set data. of_char b < (128::nat)"
  then show "utf8_decode Ignore data = latin1_decode data" by (rule utf8_decode_ascii)
next
  assume eq: "utf8_decode Ignore data = latin1_decode data"
  show "\<forall>b\<in>set data. of_char b < (128::nat)"
  proof (rule ccontr)
    assume "\<not> (\<forall>b\<in>set data. of_char b < (128::nat))"
    then have "\<exists>b\<in>set data. \<not> of_char b < (128::nat)" by blast
    from split_list_first_prop[OF this] obtain pre b rest where
      d: "data = pre @ b # rest" "\<not> of_char b < (128::nat)" "\<forall>x\<in>set pre. \<not> \<not> of_char x < (128::nat)"
      by blast
    then have pre: "\<forall>x\<in>set pre. of_char x < (128::nat)" by simp
    have "length (utf8_decode Ignore data) = length pre + length (utf8_decode Ignore (b # rest))"
      unfolding d(1) utf8_decode_ascii_prefix[OF pre] by (simp add: latin1_decode_def)
    also have "\<dots> \<le> length pre + length rest"
      using utf8_decode_shorter[of b rest] d(2) by simp
    also have "\<dots> < length (latin1_decode data)" by (simp add: d(1) latin1_decode_def)
    finally show False using eq by simp
  qed
qed

lemma utf8_decode_drops:
  assumes "\<forall>x\<in>set pre. of_char x < (128::nat)"
      and "128 \<le> (of_char b :: nat) \<and> (of_char b :: nat) < 0xC2 \<or> 0xF5 \<le> (of_char b :: nat)"
  shows "utf8_decode Ignore (pre @ b # rest) = utf8_decode Ignore (pre @ rest)"
proof -
  from assms(2) have "utf8_decode Ignore (b # rest) = utf8_decode Ignore rest"
    by (auto simp: Let_def on_error_def)
  then show ?thesis by (simp add: utf8_decode_ascii_prefix[OF assms(1)])
qed

lemma find_from_found:
  "find_from sub s k \<noteq> - 1 \<Longrightarrow>
   \<exists>i. find_from sub s k = int (k + i) \<and> i \<le> length s \<and> prefix sub (drop i s)
       \<and> (\<forall>j<i. \<not> prefix sub (drop j s))"
proof (induction s arbitrary: k)
  case Nil
  then show ?case by (auto split: if_splits)
next
  case (Cons x xs)
  show ?case
  proof (cases "prefix sub (x # xs)")
    case True
    then show ?thesis by (intro exI[of _ 0]) simp
  next
    case False
    with Cons.prems have "find_from sub xs (Suc k) \<noteq> - 1" by simp
    from Cons.IH[OF this] obtain i where i: "find_from sub xs (Suc k) = int (Suc k + i)"
      "i \<le> length xs" "prefix sub (drop i xs)" "\<forall>j<i. \<not> prefix sub (drop j xs)" by blast
    have "\<forall>j<Suc i. \<not> prefix sub (drop j (x # xs))"
    proof (intro allI impI)
      fix j assume "j < Suc i"
      then show "\<not> prefix sub (drop j (x # xs))"
        using False i(4) by (cases j) auto
    qed
    with False i show ?thesis by (intro exI[of _ "Suc i"]) simp
  qed
qed

lemma find_from_occurrence: "sublist sub s \<Longrightarrow> find_from sub s k \<noteq> - 1"
proof (induction s arbitrary: k)
  case Nil
  then show ?case by simp
next
  case (Cons x xs)
  then show ?case by (cases "prefix sub (x # xs)") (auto simp: sublist_Cons_right)
qed

lemma first_occurrence:
  assumes d: "d = hs @ sub @ rest" and sub: "sub \<noteq> []"
      and first: "\<forall>j<length hs. \<not> prefix sub (drop j d)"
  shows "\<not> sublist sub (hs @ butlast sub)"
proof
  assume "sublist sub (hs @ butlast sub)"
  then obtain ps ss where e: "hs @ butlast sub = ps @ sub @ ss" by (auto simp: sublist_def)
  have "length (hs @ butlast sub) = length (ps @ sub @ ss)" by (simp only: e)
  then have "length hs + (length sub - 1) = length ps + length sub + length ss" by simp
  moreover have "0 < length sub" using sub by simp
  ultimately have lt: "length ps < length hs" by linarith
  have split: "sub = butlast sub @ [last sub]" using sub by simp
  have "d = hs @ (butlast sub @ [last sub]) @ rest" using d split by simp
  then have "d = (hs @ butlast sub) @ last sub # rest" by simp
  then have "d = (ps @ sub @ ss) @ last sub # rest" by (simp only: e)
  then have "d = ps @ (sub @ ss @ last sub # rest)" by simp
  then have "drop (length ps) d = sub @ ss @ last sub # rest"
    by (metis append_eq_conv_conj)
  then have "prefix sub (drop (length ps) d)" by simp
  with first lt show False by blast
qed

lemma decode_response_exact:
  "\<exists>hs. fst (decode_response d) = split_sep (str CRLF) (latin1_decode hs)
      \<and> latin1_encode (join_with (str CRLF) (fst (decode_response d))) = hs
      \<and> (if sublist CRLFCRLF d
         then d = hs @ CRLFCRLF @ snd (decode_response d)
              \<and> \<not> sublist CRLFCRLF (hs @ butlast CRLFCRLF)
         else d = hs \<and> snd (decode_response d) = [])"
proof (cases "sublist CRLFCRLF d")
  case False
  then have f: "bytes_find d CRLFCRLF = - 1"
    by (simp add: bytes_find_def find_from_no_occurrence)
  from False have "\<not> sublist (str CRLFCRLF) (latin1_decode d)"
    by (simp add: sublist_latin1_decode)
  then have "first_piece (str CRLFCRLF) (latin1_decode d) = latin1_decode d"
    by (simp add: first_piece_def split_sep_def split_go_no_occurrence)
  with f have a: "fst (decode_response d) = split_sep (str CRLF) (latin1_decode d)"
    and b: "snd (decode_response d) = []"
    by (simp_all add: decode_response_def)
  have "latin1_encode (join_with (str CRLF) (fst (decode_response d))) = d"
    unfolding a by (simp add: join_split_sep latin1_roundtrip)
  with a b False show ?thesis by (intro exI[of _ d]) simp
next
  case True
  then have ne: "find_from CRLFCRLF d 0 \<noteq> - 1" by (rule find_from_occurrence)
  from find_from_found[OF ne] obtain i where i: "find_from CRLFCRLF d 0 = int i"
    "i \<le> length d" "prefix CRLFCRLF (drop i d)" "\<forall>j<i. \<not> prefix CRLFCRLF (drop j d)"
    by auto
  have len4: "length CRLFCRLF = 4" by (simp add: CRLFCRLF_def CRLF_def)
  from i(3) obtain rest where rest: "drop i d = CRLFCRLF @ rest" by (auto simp: prefix_def)
  then have r: "rest = drop (i + 4) d"
    by (metis add.commute append_eq_conv_conj drop_drop len4)
  have d: "d = take i d @ CRLFCRLF @ drop (i + 4) d"
    using rest r by (metis append_take_drop_id)
  have a: "fst (decode_response d) = split_sep (str CRLF) (latin1_decode (take i d))"
    and b: "snd (decode_response d) = drop (i + 4) d"
    using i(1) by (simp_all add: decode_response_def bytes_find_def Let_def nat_add_distrib)
  have c: "latin1_encode (join_with (str CRLF) (fst (decode_response d))) = take i d"
    unfolding a by (simp add: join_split_sep latin1_roundtrip)
  have "\<forall>j<length (take i d). \<not> prefix CRLFCRLF (drop j d)" using i(4) by simp
  from first_occurrence[OF d _ this] have f: "\<not> sublist CRLFCRLF (take i d @ butlast CRLFCRLF)"
    by (simp add: CRLFCRLF_def CRLF_def)
  from a b c d f True show ?thesis by (intro exI[of _ "take i d"]) auto
qed

section \<open>Claims about text decoding\<close>

text \<open>
  C4 as stated fails on the server's side: the request is decoded as UTF-8 with
  \<^verbatim>\<open>errors='ignore'\<close>, so the byte 0xFF, which Latin-1 maps to U+00FF, is dropped, and
  the request for the path \<^verbatim>\<open>/sub\<close> followed by that byte is answered as the request for
  \<^verbatim>\<open>/sub\<close> is.
\<close>

theorem request_decoding_not_byte_preserving:
  "utf8_decode Ignore [CHR 0xFF] = []
   \<and> latin1_decode [CHR 0xFF] = [255]
   \<and> \<not> (\<forall>data. latin1_encode (utf8_decode Ignore data) = data)
   \<and> respond demo_env (str ''root'') (''GET /sub'' @ [CHR 0xFF] @ '' HTTP/1.1'' @ CRLF @ CRLF)
       = Inr (Some (redirect_response demo_env (str ''/sub'')))"
proof -
  have a: "utf8_decode Ignore [CHR 0xFF] = []" by (simp add: on_error_def)
  have b: "latin1_decode [CHR 0xFF] = [255]" by (simp add: latin1_decode_def)
  have "latin1_encode (utf8_decode Ignore [CHR 0xFF]) \<noteq> [CHR 0xFF]"
    using a by (simp add: latin1_encode_def)
  then have c: "\<not> (\<forall>data. latin1_encode (utf8_decode Ignore data) = data)" by blast
  have "utf8_decode Ignore (''GET /sub'' @ CHR 0xFF # '' HTTP/1.1'' @ CRLF @ CRLF)
        = utf8_decode Ignore (''GET /sub'' @ '' HTTP/1.1'' @ CRLF @ CRLF)"
    by (rule utf8_decode_drops) simp_all
  then have "respond demo_env (str ''root'') (''GET /sub'' @ [CHR 0xFF] @ '' HTTP/1.1'' @ CRLF @ CRLF)
        = respond demo_env (str ''root'') (''GET /sub HTTP/1.1'' @ CRLF @ CRLF)"
    by (simp add: respond_def)
  with demo_redirect_sub a b c show ?thesis by simp
qed

text \<open>
  C4, as amended.  The client cuts the buffer at the first double CRLF, or takes all of
  it when there is none; the header lines are the Latin-1 decoding of the bytes \<open>hs\<close>
  before the cut, split at CRLF, and encoding them again gives \<open>hs\<close> back, whatever the
  bytes are; the body is the bytes after the cut, as they were received.  The server
  decodes the request as UTF-8 and leaves ill-formed sequences out.  That is a total
  function as well, but it agrees with the Latin-1 decoding exactly when every byte is
  ASCII: a byte that cannot begin a sequence, met after ASCII bytes, is dropped, and the
  handler answers as if it had not been received.
\<close>

theorem text_decoding:
  "(utf8_decode Ignore data = latin1_decode data \<longleftrightarrow> (\<forall>x\<in>set data. of_char x < (128::nat)))
   \<and> ((\<forall>x\<in>set pre. of_char x < (128::nat))
        \<and> (128 \<le> (of_char b :: nat) \<and> (of_char b :: nat) < 0xC2 \<or> 0xF5 \<le> (of_char b :: nat))
       \<longrightarrow> utf8_decode Ignore (pre @ b # rest) = utf8_decode Ignore (pre @ rest)
           \<and> respond e doc_root (pre @ b # rest) = respond e doc_root (pre @ rest))
   \<and> (\<exists>hs. fst (decode_response d) = split_sep (str CRLF) (latin1_decode hs)
          \<and> latin1_encode (join_with (str CRLF) (fst (decode_response d))) = hs
          \<and> (if sublist CRLFCRLF d
             then d = hs @ CRLFCRLF @ snd (decode_response d)
                  \<and> \<not> sublist CRLFCRLF (hs @ butlast CRLFCRLF)
             else d = hs \<and> snd (decode_response d) = []))"
proof (intro conjI impI)
  show "utf8_decode Ignore data = latin1_decode data \<longleftrightarrow> (\<forall>x\<in>set data. of_char x < (128::nat))"
    by (rule utf8_decode_latin1_iff)
next
  assume h: "(\<forall>x\<in>set pre. of_char x < (128::nat))
        \<and> (128 \<le> (of_char b :: nat) \<and> (of_char b :: nat) < 0xC2 \<or> 0xF5 \<le> (of_char b :: nat))"
  then show eq: "utf8_decode Ignore (pre @ b # rest) = utf8_decode Ignore (pre @ rest)"
    by (intro utf8_decode_drops) simp_all
  then show "respond e doc_root (pre @ b # rest) = respond e doc_root (pre @ rest)"
    by (simp add: respond_def)
next
  show "\<exists>hs. fst (decode_response d) = split_sep (str CRLF) (latin1_decode hs)
          \<and> latin1_encode (join_with (str CRLF) (fst (decode_response d))) = hs
          \<and> (if sublist CRLFCRLF d
             then d = hs @ CRLFCRLF @ snd (decode_response d)
                  \<and> \<not> sublist CRLFCRLF (hs @ butlast CRLFCRLF)
             else d = hs \<and> snd (decode_response d) = [])"
    by (rule decode_response_exact)
qed

theorem text_decoding_witness:
  "utf8_decode Ignore ''GET / HTTP/1.1'' = latin1_decode ''GET / HTTP/1.1''
   \<and> utf8_decode Ignore (''GET /'' @ CHR 0xFF # '' HTTP/1.1'')
       = utf8_decode Ignore (''GET /'' @ '' HTTP/1.1'')
   \<and> respond demo_env (str ''root'') (''GET /'' @ CHR 0xFF # '' HTTP/1.1'')
       = respond demo_env (str ''root'') (''GET /'' @ '' HTTP/1.1'')
   \<and> ''HTTP/1.1 200 OK'' @ CRLF @ CRLF @ [CHR 0xFF, CHR 0xFE]
       = latin1_encode (join_with (str CRLF)
           (fst (decode_response (''HTTP/1.1 200 OK'' @ CRLF @ CRLF @ [CHR 0xFF, CHR 0xFE]))))
         @ CRLFCRLF
         @ snd (decode_response (''HTTP/1.1 200 OK'' @ CRLF @ CRLF @ [CHR 0xFF, CHR 0xFE]))"
proof -
  let ?d = "''HTTP/1.1 200 OK'' @ CRLF @ CRLF @ [CHR 0xFF, CHR 0xFE]"
  have a: "\<forall>x\<in>set ''GET / HTTP/1.1''. of_char x < (128::nat)" by simp
  have p: "\<forall>x\<in>set ''GET /''. of_char x < (128::nat)" by simp
  have b: "128 \<le> (of_char (CHR 0xFF) :: nat) \<and> (of_char (CHR 0xFF) :: nat) < 0xC2
           \<or> 0xF5 \<le> (of_char (CHR 0xFF) :: nat)" by simp
  have s: "sublist CRLFCRLF ?d"
    unfolding sublist_def
    by (intro exI[of _ "''HTTP/1.1 200 OK''"] exI[of _ "[CHR 0xFF, CHR 0xFE]"])
       (simp add: CRLFCRLF_def)
  from text_decoding[of "''GET / HTTP/1.1''" "''GET /''" "CHR 0xFF" "'' HTTP/1.1''"
      demo_env "str ''root''" ?d] a p b s
  show ?thesis by auto
qed

end
